theory Spec2Isabelle
  imports Main "HOL-Library.Sublist"
begin

section \<open>Data model of \<^verbatim>\<open>src/upload/arduino.js\<close>\<close>

text \<open>
  The class \<^verbatim>\<open>Arduino\<close> drives two child processes (\<^verbatim>\<open>arduino-builder\<close> and
  \<^verbatim>\<open>avrdude\<close>) and a serial transport that is injected through callbacks. The embedding
  keeps the instance as a record, every call that leaves the class as an event of a
  trace, and every answer of the outside world (file system, locale, transport,
  child process) as a field of an environment record. Strings are lists of
  characters; an index into a string counts characters as JavaScript counts code units.
\<close>

text \<open>\<^verbatim>\<open>new Error(message)\<close>, and errors thrown by the platform.\<close>

datatype error = Error string

text \<open>The state of a promise; \<open>Pending\<close> is a promise that never settles.\<close>

datatype 'a promise = Fulfilled 'a | Rejected error | Pending

text \<open>
  \<^verbatim>\<open>this._config\<close>: the board profile. The fields are only interpolated into argument
  strings, so \<open>baudrate\<close> is the text that the template literal renders.
\<close>

record board_config =
  fqbn :: string
  partno :: string
  programmerId :: string
  baudrate :: string

text \<open>
  \<^verbatim>\<open>this._peripheralParams\<close>; the class touches
  \<^verbatim>\<open>peripheralConfig.config.baudRate\<close> only.
\<close>

record peripheral_params =
  baudRate :: nat

text \<open>An entry of the list that the \<^verbatim>\<open>list\<close> capability resolves to.\<close>

record device =
  pnpId :: string
  path :: string

text \<open>
  The modules the file requires and that are not part of it: \<^verbatim>\<open>path.join\<close> (of two
  segments), the colour strings of \<^verbatim>\<open>ansi-string\<close>, the table \<^verbatim>\<open>../lib/usb-id\<close> and
  \<^verbatim>\<open>iconv.encode(code, 'gb2312')\<close>. They are parameters of the model.
  (\<^verbatim>\<open>flashRealtimeFirmware\<close> is \<^verbatim>\<open>flash\<close> called with a path taken from the table
  \<^verbatim>\<open>../lib/firmware\<close>; it is covered by \<open>flash\<close> with an explicit firmware path.)
\<close>

record platform =
  join :: "string \<Rightarrow> string \<Rightarrow> string"
  ansi_red :: string
  ansi_clear :: string
  ansi_green_dark :: string
  usbId :: "string \<Rightarrow> string option"
  gb2312 :: "string \<Rightarrow> string"

text \<open>The fields that the constructor sets; the callbacks are events and environments below.\<close>

record arduino =
  peripheralPath :: string
  config :: board_config
  userDataPath :: string
  tempfilePath :: string
  arduinoPath :: string
  peripheralParams :: peripheral_params
  leonardoPath :: "string option"
  makeymakeyPath :: "string option"
  arduinoBuilderPath :: string
  avrdudePath :: string
  avrdudeConfigPath :: string
  codefilePath :: string
  projectPath :: string
  hexPath :: string

definition constructor ::
  "platform \<Rightarrow> string \<Rightarrow> board_config \<Rightarrow> string \<Rightarrow> string \<Rightarrow> peripheral_params \<Rightarrow> arduino"
where
  "constructor pf peripheralPath' config' userDataPath' toolsPath params =
     (let tempfilePath' = join pf userDataPath' ''arduino/project'';
          arduinoPath' = join pf toolsPath ''Arduino'';
          projectPath' = join pf tempfilePath' ''build''
      in \<lparr> peripheralPath = peripheralPath',
           config = config',
           userDataPath = userDataPath',
           tempfilePath = tempfilePath',
           arduinoPath = arduinoPath',
           peripheralParams = params,
           leonardoPath = None,
           makeymakeyPath = None,
           arduinoBuilderPath = join pf arduinoPath' ''arduino-builder'',
           avrdudePath = join pf arduinoPath' ''hardware/tools/avr/bin/avrdude'',
           avrdudeConfigPath = join pf arduinoPath' ''hardware/tools/avr/etc/avrdude.conf'',
           codefilePath = join pf tempfilePath' ''arduino.ino'',
           projectPath = projectPath',
           hexPath = join pf projectPath' ''arduino.ino.hex'' \<rparr>)"

text \<open>
  What the class does to the outside, in the order in which it does it. \<open>Resolve\<close> and
  \<open>Reject\<close> are the calls that settle the promise an operation returned; \<open>Wait\<close> is
  \<^verbatim>\<open>setTimeout\<close> awaited for the given number of milliseconds.
\<close>

datatype event =
    Mkdir string
  | OsLocale
  | WriteFile string string
  | Spawn string "string list"
  | Sendstd string
  | Connect peripheral_params bool
  | Disconnect
  | ListDevices
  | Wait nat
  | Resolve string
  | Reject error

text \<open>A promise is settled by the first call of \<^verbatim>\<open>resolve\<close> or \<^verbatim>\<open>reject\<close>; later calls do nothing.\<close>

fun settled :: "event list \<Rightarrow> string promise" where
  "settled [] = Pending"
| "settled (Resolve v # es) = Fulfilled v"
| "settled (Reject e # es) = Rejected e"
| "settled (_ # es) = settled es"

text \<open>
  What a child process reports: the \<^verbatim>\<open>data\<close> events of its two streams, each with the text
  that \<^verbatim>\<open>buf.toString()\<close> yields for the chunk, and its \<^verbatim>\<open>exit\<close> event with the exit code.
\<close>

datatype proc_signal = Stderr string | Stdout string | Exit int

section \<open>Strings\<close>

text \<open>
  \<^verbatim>\<open>String.prototype.search\<close> with a regular expression that is an alternation of
  literals: the index of the first position at which one of the literals starts, and
  \<open>None\<close> for JavaScript's \<^verbatim>\<open>-1\<close>. (\<^verbatim>\<open>search\<close> ignores the \<^verbatim>\<open>g\<close> flag.)
\<close>

fun search :: "string list \<Rightarrow> string \<Rightarrow> nat option" where
  "search pats [] = (if [] \<in> set pats then Some 0 else None)"
| "search pats (c # cs) =
     (if \<exists>p \<in> set pats. prefix p (c # cs) then Some 0
      else map_option Suc (search pats cs))"

definition AVRDUDE_STDOUT_GREEN_START :: "string list" where
  "AVRDUDE_STDOUT_GREEN_START = [''Reading |'', ''Writing |'']"

definition AVRDUDE_STDOUT_GREEN_END :: "string list" where
  "AVRDUDE_STDOUT_GREEN_END = [''%'']"

definition AVRDUDE_STDOUT_WHITE :: "string list" where
  "AVRDUDE_STDOUT_WHITE = [''avrdude done'']"

definition AVRDUDE_STDOUT_RED_START :: "string list" where
  "AVRDUDE_STDOUT_RED_START = [''can't open device'', ''programmer is not responding'']"

text \<open>\<^verbatim>\<open>_insertStr\<close>: \<^verbatim>\<open>soure.slice(0, start) + newStr + soure.slice(start)\<close>.\<close>

definition insertStr :: "string \<Rightarrow> nat \<Rightarrow> string \<Rightarrow> string" where
  "insertStr soure start newStr = take start soure @ newStr @ drop start soure"

text \<open>
  JavaScript's truthiness of a value that is a string, \<^verbatim>\<open>null\<close> or \<^verbatim>\<open>undefined\<close>, and its
  rendering in a template literal.
\<close>

fun truthy :: "string option \<Rightarrow> bool" where
  "truthy None = False"
| "truthy (Some s) = (s \<noteq> [])"

fun render :: "string option \<Rightarrow> string" where
  "render None = ''null''"
| "render (Some s) = s"

section \<open>\<^verbatim>\<open>build\<close>\<close>

text \<open>
  The answers of the outside world during one \<^verbatim>\<open>build\<close>: \<^verbatim>\<open>fs.existsSync\<close>, the error
  that \<^verbatim>\<open>fs.mkdirSync\<close> or \<^verbatim>\<open>fs.writeFileSync\<close> throws (if any), and the callbacks that the
  event loop runs after the executor has returned, in the order in which it runs them:
  the resolution of \<^verbatim>\<open>osLocale()\<close> and the events of the child process.
\<close>

datatype build_signal = Locale string | Proc proc_signal

record build_env =
  existsSync :: "string \<Rightarrow> bool"
  mkdir_error :: "string \<Rightarrow> error option"
  write_error :: "error option"
  later :: "build_signal list"

text \<open>\<^verbatim>\<open>Array.prototype.splice(start, 0, item1, item2)\<close>.\<close>

definition splice :: "'a list \<Rightarrow> nat \<Rightarrow> 'a list \<Rightarrow> 'a list" where
  "splice args start items = take start args @ items @ drop start args"

definition base_args :: "platform \<Rightarrow> arduino \<Rightarrow> string list" where
  "base_args pf a =
     [''-compile'',
      ''-logger=human'',
      ''-hardware'', join pf (arduinoPath a) ''hardware'',
      ''-tools'', join pf (arduinoPath a) ''tools-builder'',
      ''-tools'', join pf (arduinoPath a) ''hardware/tools/avr'',
      ''-libraries'', join pf (arduinoPath a) ''libraries'',
      ''-fqbn'', fqbn (config a),
      ''-build-path'', join pf (tempfilePath a) ''build'',
      ''-build-cache'', join pf (tempfilePath a) ''cache'',
      ''-warnings=none'',
      ''-verbose'',
      codefilePath a]"

definition extensionsLibraries :: "platform \<Rightarrow> arduino \<Rightarrow> string" where
  "extensionsLibraries pf a = join pf (userDataPath a) ''../extensions/libraries/Arduino''"

definition build_args :: "platform \<Rightarrow> build_env \<Rightarrow> arduino \<Rightarrow> string list" where
  "build_args pf env a =
     (if existsSync env (extensionsLibraries pf a)
      then splice (base_args pf a) 6 [''-libraries'', extensionsLibraries pf a]
      else base_args pf a)"

text \<open>The handler of the builder's \<^verbatim>\<open>exit\<close> event: a \<^verbatim>\<open>switch\<close> with five cases and no default.\<close>

definition build_exit :: "platform \<Rightarrow> int \<Rightarrow> event list" where
  "build_exit pf outCode =
     Sendstd (ansi_clear pf @ [CHR 0x0D, CHR 0x0A]) #
     (if outCode = 0 then [Resolve ''Success'']
      else if outCode = 1 then [Reject (Error ''Build failed'')]
      else if outCode = 2 then [Reject (Error ''Sketch not found'')]
      else if outCode = 3 then [Reject (Error ''Invalid (argument for) commandline optiond'')]
      else if outCode = 4 then [Reject (Error ''Preference passed to --get-pref does not exist'')]
      else [])"

fun build_proc :: "platform \<Rightarrow> proc_signal \<Rightarrow> event list" where
  "build_proc pf (Stderr buf) = [Sendstd (ansi_red pf @ buf)]"
| "build_proc pf (Stdout buf) =
     [Sendstd ((if search [''Sketch uses'', ''Global variables''] buf = None
                then ansi_clear pf else ansi_green_dark pf) @ buf)]"
| "build_proc pf (Exit outCode) = build_exit pf outCode"

text \<open>
  The callbacks, run in order. The callback of \<^verbatim>\<open>osLocale().then\<close> reassigns \<^verbatim>\<open>code\<close>
  and writes the file; a failing write rejects the promise.
\<close>

fun build_later :: "platform \<Rightarrow> build_env \<Rightarrow> arduino \<Rightarrow> string \<Rightarrow> build_signal list \<Rightarrow> event list" where
  "build_later pf env a code [] = []"
| "build_later pf env a code (Locale locale # ss) =
     (let code' = (if locale = ''zh-CN'' then gb2312 pf code else code)
      in (case write_error env of
            Some err \<Rightarrow> [Reject err]
          | None \<Rightarrow> [WriteFile (codefilePath a) code'])
         @ build_later pf env a code' ss)"
| "build_later pf env a code (Proc s # ss) = build_proc pf s @ build_later pf env a code ss"

text \<open>
  \<^verbatim>\<open>if (!fs.existsSync(dir)) fs.mkdirSync(dir, {recursive: true})\<close>; an error thrown in the
  executor rejects the promise and ends the executor.
\<close>

definition ensure_dir :: "build_env \<Rightarrow> string \<Rightarrow> error + event list" where
  "ensure_dir env dir =
     (if existsSync env dir then Inr []
      else (case mkdir_error env dir of Some err \<Rightarrow> Inl err | None \<Rightarrow> Inr [Mkdir dir]))"

text \<open>
  The executor of the promise runs to its end before any callback runs: it makes the
  directories, calls \<^verbatim>\<open>osLocale()\<close> (whose \<^verbatim>\<open>then\<close> callback is only registered here),
  builds the argument list and spawns the builder. The child process is taken to start.
\<close>

definition build :: "platform \<Rightarrow> build_env \<Rightarrow> arduino \<Rightarrow> string \<Rightarrow> event list" where
  "build pf env a code =
     (case ensure_dir env (projectPath a) of
        Inl err \<Rightarrow> [Reject err]
      | Inr t1 \<Rightarrow>
          (case ensure_dir env (join pf (tempfilePath a) ''cache'') of
             Inl err \<Rightarrow> t1 @ [Reject err]
           | Inr t2 \<Rightarrow>
               t1 @ t2 @ [OsLocale, Spawn (arduinoBuilderPath a) (build_args pf env a)]
               @ build_later pf env a code (later env)))"

section \<open>The bootloader handshake and \<^verbatim>\<open>flash\<close>\<close>

text \<open>
  The answers of the outside world during one \<^verbatim>\<open>flash\<close>: how the promises of the
  injected \<^verbatim>\<open>connect\<close>, \<^verbatim>\<open>disconnect\<close> and \<^verbatim>\<open>list\<close> settle (\<^verbatim>\<open>list\<close> resolves to an array
  or to \<^verbatim>\<open>null\<close>), and the events of \<^verbatim>\<open>avrdude\<close>.
\<close>

record flash_env =
  connect_result :: "unit promise"
  disconnect_result :: "unit promise"
  list_result :: "device list option promise"
  avrdude :: "proc_signal list"

text \<open>\<^verbatim>\<open>usbId[pnpid] ? usbId[pnpid] : 'Unknown device'\<close> on the first 21 characters.\<close>

definition device_name :: "platform \<Rightarrow> device \<Rightarrow> string" where
  "device_name pf dev =
     (let pnpid = take 21 (pnpId dev)
      in if truthy (usbId pf pnpid) then the (usbId pf pnpid) else ''Unknown device'')"

text \<open>
  The \<^verbatim>\<open>forEach\<close> of the rescan: every entry whose name is the target overwrites the
  cached path, which starts as the value the field has when the scan begins.
\<close>

fun rescan :: "platform \<Rightarrow> string \<Rightarrow> string option \<Rightarrow> device list \<Rightarrow> string option" where
  "rescan pf target cached [] = cached"
| "rescan pf target cached (dev # devs) =
     rescan pf target (if device_name pf dev = target then Some (path dev) else cached) devs"

text \<open>
  The common text of \<^verbatim>\<open>leonardo\<close> and \<^verbatim>\<open>makeymakey\<close> up to the rescan: the baud rate of the
  shared parameter object is set to 1200, the port is opened and closed. An awaited
  promise that rejects ends the method with that error; one that never settles leaves
  it pending.
\<close>

definition touch :: "flash_env \<Rightarrow> arduino \<Rightarrow> arduino \<times> event list \<times> unit promise" where
  "touch env a =
     (let a1 = a\<lparr>peripheralParams := (peripheralParams a)\<lparr>baudRate := 1200\<rparr>\<rparr>;
          t1 = [Connect (peripheralParams a1) True]
      in case connect_result env of
           Rejected err \<Rightarrow> (a1, t1, Rejected err)
         | Pending \<Rightarrow> (a1, t1, Pending)
         | Fulfilled _ \<Rightarrow>
             (let t2 = t1 @ [Wait 100, Disconnect]
              in case disconnect_result env of
                   Rejected err \<Rightarrow> (a1, t2, Rejected err)
                 | Pending \<Rightarrow> (a1, t2, Pending)
                 | Fulfilled _ \<Rightarrow> (a1, t2 @ [Wait 1000], Fulfilled ())))"

text \<open>
  \<^verbatim>\<open>leonardo\<close>: after the touch, \<^verbatim>\<open>this._list().then(...)\<close> inside a new promise. A
  rejected or pending \<^verbatim>\<open>list\<close> never calls the callback, so the new promise never
  settles.
\<close>

definition leonardo :: "platform \<Rightarrow> flash_env \<Rightarrow> arduino \<Rightarrow> arduino \<times> event list \<times> unit promise" where
  "leonardo pf env a =
     (case touch env a of
        (a1, t, Fulfilled _) \<Rightarrow>
          (case list_result env of
             Fulfilled (Some peripheral) \<Rightarrow>
               (let a2 = a1\<lparr>leonardoPath :=
                              rescan pf ''Arduino Leonardo'' (leonardoPath a1) peripheral\<rparr>
                in (a2, t @ [ListDevices],
                    if leonardoPath a2 = None
                    then Rejected (Error ''cannot discover leonardo'')
                    else Fulfilled ()))
           | Fulfilled None \<Rightarrow>
               (a1, t @ [ListDevices], Rejected (Error ''cannot discover leonardo''))
           | Rejected err \<Rightarrow> (a1, t @ [ListDevices], Pending)
           | Pending \<Rightarrow> (a1, t @ [ListDevices], Pending))
      | (a1, t, r) \<Rightarrow> (a1, t, r))"

definition makeymakey :: "platform \<Rightarrow> flash_env \<Rightarrow> arduino \<Rightarrow> arduino \<times> event list \<times> unit promise" where
  "makeymakey pf env a =
     (case touch env a of
        (a1, t, Fulfilled _) \<Rightarrow>
          (case list_result env of
             Fulfilled (Some peripheral) \<Rightarrow>
               (let a2 = a1\<lparr>makeymakeyPath :=
                              rescan pf ''Makey Makey'' (makeymakeyPath a1) peripheral\<rparr>
                in (a2, t @ [ListDevices],
                    if makeymakeyPath a2 = None
                    then Rejected (Error ''cannot discover makeymakey'')
                    else Fulfilled ()))
           | Fulfilled None \<Rightarrow>
               (a1, t @ [ListDevices], Rejected (Error ''cannot discover makeymakey''))
           | Rejected err \<Rightarrow> (a1, t @ [ListDevices], Pending)
           | Pending \<Rightarrow> (a1, t @ [ListDevices], Pending))
      | (a1, t, r) \<Rightarrow> (a1, t, r))"

text \<open>
  One statement of the handler of \<^verbatim>\<open>avrdude\<close>'s error stream:
  \<^verbatim>\<open>if (data.search(P) != -1) data = this._insertStr(data, data.search(P) + offset, newStr)\<close>.
\<close>

definition mark :: "string list \<Rightarrow> nat \<Rightarrow> string \<Rightarrow> string \<Rightarrow> string" where
  "mark pats offset newStr data =
     (case search pats data of
        None \<Rightarrow> data
      | Some i \<Rightarrow> insertStr data (i + offset) newStr)"

text \<open>The handler: four such statements, each on the data the one before it left.\<close>

definition classify :: "platform \<Rightarrow> string \<Rightarrow> string" where
  "classify pf buf =
     (let data = mark AVRDUDE_STDOUT_GREEN_START 0 (ansi_green_dark pf) buf;
          data = mark AVRDUDE_STDOUT_GREEN_END 1 (ansi_clear pf) data;
          data = mark AVRDUDE_STDOUT_WHITE 0 (ansi_clear pf) data;
          data = mark AVRDUDE_STDOUT_RED_START 0 (ansi_red pf) data
      in data)"

text \<open>The port argument: two nested conditionals on the cached paths.\<close>

definition port_arg :: "arduino \<Rightarrow> string" where
  "port_arg a =
     (if truthy (leonardoPath a) then ''-P'' @ render (leonardoPath a)
      else if truthy (makeymakeyPath a) then ''-P'' @ render (makeymakeyPath a)
      else ''-P'' @ peripheralPath a)"

definition flash_args :: "arduino \<Rightarrow> string option \<Rightarrow> string list" where
  "flash_args a firmwarePath =
     [''-C'',
      avrdudeConfigPath a,
      ''-v'',
      ''-p'' @ partno (config a),
      ''-c'' @ programmerId (config a),
      port_arg a,
      ''-b'' @ baudrate (config a),
      ''-D'',
      (if truthy firmwarePath then ''-Uflash:w:'' @ render firmwarePath @ '':i''
       else ''-Uflash:w:'' @ hexPath a @ '':i'')]"

text \<open>The handler of \<^verbatim>\<open>avrdude\<close>'s \<^verbatim>\<open>exit\<close> event: a \<^verbatim>\<open>switch\<close> with two cases and no default.\<close>

definition flash_exit :: "arduino \<Rightarrow> int \<Rightarrow> event list" where
  "flash_exit a code =
     (if code = 0 then
        (if fqbn (config a) = ''arduino:avr:leonardo'' then [Wait 1000, Resolve ''Success'']
         else if fqbn (config a) = ''SparkFun:avr:makeymakey'' then [Wait 1000, Resolve ''Success'']
         else [Resolve ''Success''])
      else if code = 1 then [Reject (Error ''avrdude failed to flash'')]
      else [])"

fun flash_proc :: "platform \<Rightarrow> arduino \<Rightarrow> proc_signal \<Rightarrow> event list" where
  "flash_proc pf a (Stderr buf) = [Sendstd (classify pf buf)]"
| "flash_proc pf a (Stdout buf) = [Sendstd buf]"
| "flash_proc pf a (Exit code) = flash_exit a code"

text \<open>
  \<^verbatim>\<open>flash\<close>: the handshake of the board (if it has one), then the spawn of \<^verbatim>\<open>avrdude\<close> and
  its events. The result is the instance after the call and the trace of the call.
\<close>

definition handshake :: "platform \<Rightarrow> flash_env \<Rightarrow> arduino \<Rightarrow> arduino \<times> event list \<times> unit promise" where
  "handshake pf env a =
     (if fqbn (config a) = ''arduino:avr:leonardo'' then leonardo pf env a
      else if fqbn (config a) = ''SparkFun:avr:makeymakey'' then makeymakey pf env a
      else (a, [], Fulfilled ()))"

definition flash :: "platform \<Rightarrow> flash_env \<Rightarrow> arduino \<Rightarrow> string option \<Rightarrow> arduino \<times> event list" where
  "flash pf env a firmwarePath =
     (case handshake pf env a of
        (a1, t, Rejected err) \<Rightarrow> (a1, t @ [Reject err])
      | (a1, t, Pending) \<Rightarrow> (a1, t)
      | (a1, t, Fulfilled _) \<Rightarrow>
          (a1, t @ [Spawn (avrdudePath a1) (flash_args a1 firmwarePath)]
               @ concat (map (flash_proc pf a1) (avrdude env))))"

text \<open>
  A caller's successive \<^verbatim>\<open>flash\<close> calls on one instance: the instance after the calls.
\<close>

fun flashes :: "platform \<Rightarrow> arduino \<Rightarrow> (flash_env \<times> string option) list \<Rightarrow> arduino" where
  "flashes pf a [] = a"
| "flashes pf a ((env, firmwarePath) # calls) =
     flashes pf (fst (flash pf env a firmwarePath)) calls"

section \<open>Markers at the first matches of a chunk\<close>

text \<open>
  What it means that a marker sits at the position of a match in the chunk the handler
  received. A pattern set matches at a position of a string when one of its literals
  starts there.
\<close>

definition matches_at :: "string list \<Rightarrow> string \<Rightarrow> nat \<Rightarrow> bool" where
  "matches_at pats s i \<longleftrightarrow> (\<exists>p \<in> set pats. prefix p (drop i s))"

text \<open>
  The first match of a pattern set in a string, stated without the search of the
  program: the least position, from 0 up to the length, at which the set matches.
\<close>

definition first_match :: "string list \<Rightarrow> string \<Rightarrow> nat option" where
  "first_match pats s = find (matches_at pats s) [0..<Suc (length s)]"

text \<open>
  A list of marks gives positions of the chunk and the string to insert at each.
  \<open>weave\<close> copies the chunk and emits, before the character at position \<open>i\<close> (and after
  the last character, for the position that is the length), the strings of the marks at
  \<open>i\<close>, in the order of the list. Nothing of the chunk is dropped or moved.
\<close>

definition marks_at :: "(nat \<times> string) list \<Rightarrow> nat \<Rightarrow> string" where
  "marks_at ms i = concat (map snd (filter (\<lambda>m. fst m = i) ms))"

fun weave :: "(nat \<times> string) list \<Rightarrow> nat \<Rightarrow> string \<Rightarrow> string" where
  "weave ms i [] = marks_at ms i"
| "weave ms i (c # cs) = marks_at ms i @ c # weave ms (Suc i) cs"

fun mark_of :: "nat option \<Rightarrow> nat \<Rightarrow> string \<Rightarrow> (nat \<times> string) list" where
  "mark_of None offset m = []"
| "mark_of (Some i) offset m = [(i + offset, m)]"

text \<open>
  The marks of a chunk, with the patterns written out: for each of the four patterns
  that occurs in the chunk, one mark at its first match in the chunk, and none for any
  later match. The end marker goes directly behind the first percent sign; the start
  marker in front of the first \<open>Reading |\<close> or \<open>Writing |\<close>, the end marker in front of
  the first \<open>avrdude done\<close> and the error marker in front of the first
  \<open>can't open device\<close> or \<open>programmer is not responding\<close>. The marks are not paired:
  each position is found on its own.
\<close>

definition first_marks :: "platform \<Rightarrow> string \<Rightarrow> (nat \<times> string) list" where
  "first_marks pf buf =
     mark_of (first_match [''%''] buf) 1 (ansi_clear pf) @
     mark_of (first_match [''Reading |'', ''Writing |''] buf) 0 (ansi_green_dark pf) @
     mark_of (first_match [''avrdude done''] buf) 0 (ansi_clear pf) @
     mark_of (first_match [''can't open device'', ''programmer is not responding''] buf) 0
       (ansi_red pf)"

text \<open>
  The colour strings are not in the source. A colour string is inert for a set of
  patterns when no pattern can start inside it and it cannot start inside a pattern: no
  pattern begins with one of its characters, and its first character occurs in no
  pattern. Escape sequences are inert for the patterns of the handler. The start marker
  has to be inert for the patterns searched after it, and so has the end marker.
\<close>

definition inert :: "string list \<Rightarrow> string \<Rightarrow> bool" where
  "inert pats m \<longleftrightarrow>
     (\<forall>p \<in> set pats. p \<noteq> [] \<and> hd p \<notin> set m \<and> (m \<noteq> [] \<longrightarrow> hd m \<notin> set p))"

definition inert_markers :: "platform \<Rightarrow> bool" where
  "inert_markers pf \<longleftrightarrow>
     inert [''%'', ''avrdude done'', ''can't open device'', ''programmer is not responding'']
       (ansi_green_dark pf)
     \<and> inert [''avrdude done'', ''can't open device'', ''programmer is not responding'']
         (ansi_clear pf)"

text \<open>
  Notions for the proofs. \<open>shift q n\<close> maps a position of a string to the position of the
  same character after \<open>n\<close> characters were inserted at \<open>q\<close>. An insertion at \<open>q\<close> leaves
  a pattern set \<open>unbroken\<close> when no match reaches across \<open>q\<close>. \<open>overlap u x\<close> holds when a
  non-empty suffix of \<open>u\<close> and \<open>x\<close> can start at the same place. \<open>width ms lo hi\<close> is the
  number of characters of the marks at positions from \<open>lo\<close> up to \<open>hi\<close> (excluded), and
  \<open>pos ms i\<close> the position, in the woven string, of the character at \<open>i\<close> of the chunk.
\<close>

definition shift :: "nat \<Rightarrow> nat \<Rightarrow> nat \<Rightarrow> nat" where
  "shift q n i = (if i < q then i else i + n)"

definition unbroken :: "string list \<Rightarrow> string \<Rightarrow> nat \<Rightarrow> bool" where
  "unbroken pats d q \<longleftrightarrow>
     (\<forall>p \<in> set pats. \<forall>j < q. prefix p (drop j d) \<longrightarrow> j + length p \<le> q)"

fun overlap :: "string \<Rightarrow> string \<Rightarrow> bool" where
  "overlap [] x = False"
| "overlap (c # cs) x = (prefix (c # cs) x \<or> prefix x (c # cs) \<or> overlap cs x)"

definition width :: "(nat \<times> string) list \<Rightarrow> nat \<Rightarrow> nat \<Rightarrow> nat" where
  "width ms lo hi =
     sum_list (map (\<lambda>m. length (snd m)) (filter (\<lambda>m. lo \<le> fst m \<and> fst m < hi) ms))"

definition pos :: "(nat \<times> string) list \<Rightarrow> nat \<Rightarrow> nat" where
  "pos ms i = i + width ms 0 (Suc i)"

section \<open>Example inputs\<close>

text \<open>
  Concrete inputs on which the theorems below are run: a platform that joins path
  segments with a slash and uses the usual escape sequences as colour strings, a
  device table with the bootloader identifiers of the two touch-reset boards, two board
  profiles, and environments in which the file system is empty and the transport
  answers.
\<close>

definition example_platform :: platform where
  "example_platform =
     \<lparr> join = (\<lambda>dir name. dir @ ''/'' @ name),
       ansi_red = CHR 0x1B # ''[91m'',
       ansi_clear = CHR 0x1B # ''[0m'',
       ansi_green_dark = CHR 0x1B # ''[32m'',
       usbId = [''USB'' @ [CHR 0x5C] @ ''VID_2341&PID_0036'' \<mapsto> ''Arduino Leonardo'',
                ''USB'' @ [CHR 0x5C] @ ''VID_1B4F&PID_2B74'' \<mapsto> ''Makey Makey''],
       gb2312 = (\<lambda>code. code) \<rparr>"

definition leonardo_config :: board_config where
  "leonardo_config =
     \<lparr> fqbn = ''arduino:avr:leonardo'', partno = ''atmega32u4'',
       programmerId = ''avr109'', baudrate = ''57600'' \<rparr>"

definition uno_config :: board_config where
  "uno_config =
     \<lparr> fqbn = ''arduino:avr:uno'', partno = ''atmega328p'',
       programmerId = ''arduino'', baudrate = ''115200'' \<rparr>"

definition example_instance :: "board_config \<Rightarrow> arduino" where
  "example_instance cfg =
     constructor example_platform ''COM3'' cfg ''/data'' ''/tools'' \<lparr> baudRate = 115200 \<rparr>"

definition example_build_env :: "bool \<Rightarrow> build_signal list \<Rightarrow> build_env" where
  "example_build_env extensions signals =
     \<lparr> existsSync = (\<lambda>dir. extensions \<and> dir = ''/data/../extensions/libraries/Arduino''),
       mkdir_error = (\<lambda>dir. None),
       write_error = None,
       later = signals \<rparr>"

definition bootloader_device :: "string \<Rightarrow> device" where
  "bootloader_device port =
     \<lparr> pnpId = ''USB'' @ [CHR 0x5C] @ ''VID_2341&PID_0036'' @ [CHR 0x5C] @ ''5&2F2B3A1&0&2'',
       path = port \<rparr>"

definition example_flash_env :: "device list option \<Rightarrow> proc_signal list \<Rightarrow> flash_env" where
  "example_flash_env devs signals =
     \<lparr> connect_result = Fulfilled (), disconnect_result = Fulfilled (),
       list_result = Fulfilled devs, avrdude = signals \<rparr>"

lemmas example_defs =
  example_platform_def leonardo_config_def uno_config_def example_instance_def
  example_build_env_def bootloader_device_def example_flash_env_def constructor_def

lemmas flash_defs =
  flash_def handshake_def leonardo_def makeymakey_def touch_def device_name_def
  flash_args_def port_arg_def flash_exit_def Let_def

section \<open>Exit codes of the builder\<close>

text \<open>
  The handler of the builder's exit settles the promise for the codes 0 to 4, with
  the messages of the source: \<open>Build failed\<close> stands for BuildFailed, \<open>Sketch not found\<close>
  for SketchNotFound, the third message for InvalidArguments and the fourth for
  UnknownPreference.
\<close>

lemma build_exit_mapped:
  "settled (build_exit pf 0) = Fulfilled ''Success''"
  "settled (build_exit pf 1) = Rejected (Error ''Build failed'')"
  "settled (build_exit pf 2) = Rejected (Error ''Sketch not found'')"
  "settled (build_exit pf 3) = Rejected (Error ''Invalid (argument for) commandline optiond'')"
  "settled (build_exit pf 4) = Rejected (Error ''Preference passed to --get-pref does not exist'')"
  by (simp_all add: build_exit_def)

text \<open>For every other code the handler only sends the colour reset: nothing settles the promise.\<close>

lemma build_exit_unmapped:
  "outCode \<notin> {0, 1, 2, 3, 4} \<Longrightarrow>
   build_exit pf outCode = [Sendstd (ansi_clear pf @ [CHR 0x0D, CHR 0x0A])]"
  by (simp add: build_exit_def)

text \<open>A build whose builder only reports such an exit never settles.\<close>

lemma build_pending_on_other_exit:
  assumes "outCode \<notin> {0, 1, 2, 3, 4}"
    and "existsSync env (projectPath a)" and "existsSync env (join pf (tempfilePath a) ''cache'')"
    and "later env = [Proc (Exit outCode)]"
  shows "settled (build pf env a code) = Pending"
  using assms by (simp add: build_def ensure_dir_def build_exit_def)

text \<open>
  Claim C2: \<^verbatim>\<open>build\<close> maps the exit code 0 to Success, 1 to BuildFailed, 2 to
  SketchNotFound, 3 to InvalidArguments, 4 to UnknownPreference, and every other exit
  code still surfaces a failure to the caller. The code does not do the last part: a
  build of a sketch for an Uno whose builder exits with code 5 writes the file, sends
  the colour reset and leaves the promise pending for ever.
\<close>

theorem build_unmapped_exit_code_pending:
  "build example_platform (example_build_env False [Locale ''en-US'', Proc (Exit 5)])
     (example_instance uno_config) ''void setup(){}'' =
   [Mkdir ''/data/arduino/project/build'',
    Mkdir ''/data/arduino/project/cache'',
    OsLocale,
    Spawn ''/tools/Arduino/arduino-builder''
      (base_args example_platform (example_instance uno_config)),
    WriteFile ''/data/arduino/project/arduino.ino'' ''void setup(){}'',
    Sendstd (CHR 0x1B # ''[0m'' @ [CHR 0x0D, CHR 0x0A])]
   \<and> settled (build example_platform (example_build_env False [Locale ''en-US'', Proc (Exit 5)])
        (example_instance uno_config) ''void setup(){}'') = Pending"
  by (simp add: example_defs Let_def build_def ensure_dir_def build_exit_def build_args_def
      extensionsLibraries_def)

section \<open>The source file and the spawn of the builder\<close>

lemma ensure_dir_events: "ensure_dir env dir = Inr t \<Longrightarrow> t = [] \<or> t = [Mkdir dir]"
  by (auto simp: ensure_dir_def split: if_splits option.splits)

text \<open>
  In every trace of \<^verbatim>\<open>build\<close>, a write of the source file comes after the spawn of the
  builder: the write is in the callback of \<^verbatim>\<open>osLocale().then\<close>, the spawn in the
  executor.
\<close>

lemma build_write_follows_spawn:
  assumes "build pf env a code = pre @ WriteFile file content # post"
  shows "Spawn (arduinoBuilderPath a) (build_args pf env a) \<in> set pre"
proof (cases "ensure_dir env (projectPath a)")
  case (Inl err)
  with assms show ?thesis by (simp add: build_def Cons_eq_append_conv)
next
  case t1: (Inr t1)
  show ?thesis
  proof (cases "ensure_dir env (join pf (tempfilePath a) ''cache'')")
    case (Inl err)
    with t1 assms have eq: "t1 @ [Reject err] = pre @ WriteFile file content # post"
      by (simp add: build_def)
    have "WriteFile file content \<in> set (t1 @ [Reject err])" unfolding eq by simp
    with ensure_dir_events[OF t1] show ?thesis by auto
  next
    case t2: (Inr t2)
    let ?head = "t1 @ t2 @ [OsLocale, Spawn (arduinoBuilderPath a) (build_args pf env a)]"
    let ?tail = "build_later pf env a code (later env)"
    from t1 t2 assms have eq: "?head @ ?tail = pre @ WriteFile file content # post"
      by (simp add: build_def)
    have nw: "WriteFile file content \<notin> set ?head"
      using ensure_dir_events[OF t1] ensure_dir_events[OF t2] by auto
    from eq obtain us where
      "(?head @ us = pre \<and> ?tail = us @ WriteFile file content # post) \<or>
       (?head = pre @ us \<and> us @ ?tail = WriteFile file content # post)"
      unfolding append_eq_append_conv2 by blast
    then show ?thesis
    proof
      assume "?head @ us = pre \<and> ?tail = us @ WriteFile file content # post"
      then have "pre = ?head @ us" by simp
      then show ?thesis by simp
    next
      assume h: "?head = pre @ us \<and> us @ ?tail = WriteFile file content # post"
      show ?thesis
      proof (cases us)
        case Nil
        with h have "pre = ?head" by simp
        then show ?thesis by simp
      next
        case (Cons u us')
        with h have "u = WriteFile file content" by simp
        with h Cons have "WriteFile file content \<in> set ?head" by (metis in_set_conv_decomp)
        with nw show ?thesis by contradiction
      qed
    qed
  qed
qed

text \<open>
  Claim C3: the write of the source payload completes (or the operation fails with an
  I/O error) strictly before the build tool is spawned. The code spawns first: in a
  build on an empty workspace, with the locale resolved and the builder exiting with
  code 0, the trace has the spawn of the builder before the write of the source file.
\<close>

theorem build_spawns_before_write:
  "build example_platform (example_build_env False [Locale ''en-US'', Proc (Exit 0)])
     (example_instance uno_config) ''void setup(){}'' =
   [Mkdir ''/data/arduino/project/build'',
    Mkdir ''/data/arduino/project/cache'',
    OsLocale,
    Spawn ''/tools/Arduino/arduino-builder''
      (base_args example_platform (example_instance uno_config)),
    WriteFile ''/data/arduino/project/arduino.ino'' ''void setup(){}'',
    Sendstd (CHR 0x1B # ''[0m'' @ [CHR 0x0D, CHR 0x0A]),
    Resolve ''Success'']"
  by (simp add: example_defs Let_def build_def ensure_dir_def build_exit_def build_args_def
      extensionsLibraries_def)

section \<open>The cached paths across calls of \<^verbatim>\<open>flash\<close>\<close>

text \<open>
  Claim C1: the port that a later \<^verbatim>\<open>flash\<close> passes to the programmer does not depend on
  a path rediscovered during an earlier \<^verbatim>\<open>flash\<close> of the same instance. The code keeps
  the path in a field that nothing resets. A Leonardo instance flashes once with the
  bootloader visible at \<open>COM5\<close> and once more with a rescan that lists no
  device: the second call passes \<open>-PCOM5\<close> to the programmer and succeeds, where the
  same call on a new instance is rejected with \<open>cannot discover leonardo\<close>.
\<close>

theorem stale_path_reused_by_later_flash:
  "snd (flash example_platform (example_flash_env (Some []) [Exit 0])
          (fst (flash example_platform
                  (example_flash_env (Some [bootloader_device ''COM5'']) [Exit 0])
                  (example_instance leonardo_config) None))
          None) =
   [Connect \<lparr>baudRate = 1200\<rparr> True, Wait 100, Disconnect, Wait 1000, ListDevices,
    Spawn ''/tools/Arduino/hardware/tools/avr/bin/avrdude''
      [''-C'', ''/tools/Arduino/hardware/tools/avr/etc/avrdude.conf'', ''-v'',
       ''-patmega32u4'', ''-cavr109'', ''-PCOM5'', ''-b57600'', ''-D'',
       ''-Uflash:w:/data/arduino/project/build/arduino.ino.hex:i''],
    Wait 1000, Resolve ''Success'']
   \<and> snd (flash example_platform (example_flash_env (Some []) [Exit 0])
            (example_instance leonardo_config) None) =
   [Connect \<lparr>baudRate = 1200\<rparr> True, Wait 100, Disconnect, Wait 1000, ListDevices,
    Reject (Error ''cannot discover leonardo'')]"
  by (simp add: example_defs flash_defs)

section \<open>Device rediscovery\<close>

lemma device_name_unknown:
  "usbId pf (take 21 (pnpId dev)) = None \<Longrightarrow> device_name pf dev = ''Unknown device''"
  by (simp add: device_name_def)

lemma rescan_no_match:
  "\<forall>dev \<in> set devs. device_name pf dev \<noteq> target \<Longrightarrow> rescan pf target cached devs = cached"
  by (induction devs arbitrary: cached) simp_all

lemma rescan_append:
  "rescan pf target cached (xs @ ys) = rescan pf target (rescan pf target cached xs) ys"
  by (induction xs arbitrary: cached) simp_all

text \<open>The scan has no early exit: the last matching entry wins, whatever comes before it.\<close>

lemma rescan_last_match:
  assumes "device_name pf dev = target"
    and "\<forall>x \<in> set after. device_name pf x \<noteq> target"
  shows "rescan pf target cached (before @ dev # after) = Some (path dev)"
  using assms by (simp add: rescan_append rescan_no_match)

lemma touch_fulfilled:
  assumes "connect_result env = Fulfilled ()" and "disconnect_result env = Fulfilled ()"
  shows "touch env a =
           (a\<lparr>peripheralParams := (peripheralParams a)\<lparr>baudRate := 1200\<rparr>\<rparr>,
            [Connect ((peripheralParams a)\<lparr>baudRate := 1200\<rparr>) True, Wait 100, Disconnect,
             Wait 1000],
            Fulfilled ())"
  using assms by (simp add: touch_def Let_def)

text \<open>
  On an instance whose cached path is still \<^verbatim>\<open>null\<close>, the rediscovery does what the
  specification says: it fails on a \<^verbatim>\<open>null\<close> list and on a list without a match, and it
  returns the path of the last match.
\<close>

lemma leonardo_null_list:
  assumes "connect_result env = Fulfilled ()" and "disconnect_result env = Fulfilled ()"
    and "list_result env = Fulfilled None"
  shows "snd (snd (leonardo pf env a)) = Rejected (Error ''cannot discover leonardo'')"
  using assms by (simp add: leonardo_def touch_fulfilled)

lemma leonardo_fresh_no_match:
  assumes "connect_result env = Fulfilled ()" and "disconnect_result env = Fulfilled ()"
    and "list_result env = Fulfilled (Some devs)"
    and "leonardoPath a = None"
    and "\<forall>dev \<in> set devs. device_name pf dev \<noteq> ''Arduino Leonardo''"
  shows "snd (snd (leonardo pf env a)) = Rejected (Error ''cannot discover leonardo'')"
  using assms by (simp add: leonardo_def touch_fulfilled rescan_no_match Let_def)

lemma leonardo_last_match:
  assumes "connect_result env = Fulfilled ()" and "disconnect_result env = Fulfilled ()"
    and "list_result env = Fulfilled (Some (before @ dev # after))"
    and "device_name pf dev = ''Arduino Leonardo''"
    and "\<forall>x \<in> set after. device_name pf x \<noteq> ''Arduino Leonardo''"
  shows "leonardoPath (fst (leonardo pf env a)) = Some (path dev)"
    and "snd (snd (leonardo pf env a)) = Fulfilled ()"
  using assms by (simp_all add: leonardo_def touch_fulfilled rescan_last_match Let_def)

lemma makeymakey_null_list:
  assumes "connect_result env = Fulfilled ()" and "disconnect_result env = Fulfilled ()"
    and "list_result env = Fulfilled None"
  shows "snd (snd (makeymakey pf env a)) = Rejected (Error ''cannot discover makeymakey'')"
  using assms by (simp add: makeymakey_def touch_fulfilled)

lemma makeymakey_fresh_no_match:
  assumes "connect_result env = Fulfilled ()" and "disconnect_result env = Fulfilled ()"
    and "list_result env = Fulfilled (Some devs)"
    and "makeymakeyPath a = None"
    and "\<forall>dev \<in> set devs. device_name pf dev \<noteq> ''Makey Makey''"
  shows "snd (snd (makeymakey pf env a)) = Rejected (Error ''cannot discover makeymakey'')"
  using assms by (simp add: makeymakey_def touch_fulfilled rescan_no_match Let_def)

lemma makeymakey_last_match:
  assumes "connect_result env = Fulfilled ()" and "disconnect_result env = Fulfilled ()"
    and "list_result env = Fulfilled (Some (before @ dev # after))"
    and "device_name pf dev = ''Makey Makey''"
    and "\<forall>x \<in> set after. device_name pf x \<noteq> ''Makey Makey''"
  shows "makeymakeyPath (fst (makeymakey pf env a)) = Some (path dev)"
    and "snd (snd (makeymakey pf env a)) = Fulfilled ()"
  using assms by (simp_all add: makeymakey_def touch_fulfilled rescan_last_match Let_def)

text \<open>
  On an instance that has cached a path, a rescan without a match is not noticed: the
  method resolves, the field keeps the old path, and \<^verbatim>\<open>flash\<close> passes it to the
  programmer.
\<close>

lemma leonardo_cached_no_match:
  assumes "connect_result env = Fulfilled ()" and "disconnect_result env = Fulfilled ()"
    and "list_result env = Fulfilled (Some devs)"
    and "leonardoPath a = Some cached"
    and "\<forall>dev \<in> set devs. device_name pf dev \<noteq> ''Arduino Leonardo''"
  shows "snd (snd (leonardo pf env a)) = Fulfilled ()"
    and "leonardoPath (fst (leonardo pf env a)) = Some cached"
  using assms by (simp_all add: leonardo_def touch_fulfilled rescan_no_match Let_def)

lemma makeymakey_cached_no_match:
  assumes "connect_result env = Fulfilled ()" and "disconnect_result env = Fulfilled ()"
    and "list_result env = Fulfilled (Some devs)"
    and "makeymakeyPath a = Some cached"
    and "\<forall>dev \<in> set devs. device_name pf dev \<noteq> ''Makey Makey''"
  shows "snd (snd (makeymakey pf env a)) = Fulfilled ()"
    and "makeymakeyPath (fst (makeymakey pf env a)) = Some cached"
  using assms by (simp_all add: makeymakey_def touch_fulfilled rescan_no_match Let_def)

lemma flash_reuses_cached_path:
  assumes "fqbn (config a) = ''arduino:avr:leonardo''"
    and "connect_result env = Fulfilled ()" and "disconnect_result env = Fulfilled ()"
    and "list_result env = Fulfilled (Some devs)"
    and "leonardoPath a = Some cached" and "cached \<noteq> []"
    and "\<forall>dev \<in> set devs. device_name pf dev \<noteq> ''Arduino Leonardo''"
  shows "\<exists>prog args. Spawn prog args \<in> set (snd (flash pf env a firmwarePath))
           \<and> args ! 5 = ''-P'' @ cached"
proof -
  obtain a1 t r where l: "leonardo pf env a = (a1, t, r)" by (cases "leonardo pf env a")
  from leonardo_cached_no_match[OF assms(2,3,4,5,7)] l
  have r: "r = Fulfilled ()" and c: "leonardoPath a1 = Some cached" by simp_all
  from l r assms(1) have sp: "Spawn (avrdudePath a1) (flash_args a1 firmwarePath)
      \<in> set (snd (flash pf env a firmwarePath))"
    by (simp add: flash_def handshake_def)
  from c assms(6) have port: "flash_args a1 firmwarePath ! 5 = ''-P'' @ cached"
    by (simp add: flash_args_def port_arg_def)
  show ?thesis
    by (rule exI[of _ "avrdudePath a1"], rule exI[of _ "flash_args a1 firmwarePath"])
      (simp only: sp port)
qed

text \<open>
  Claim C4: device rediscovery scans the whole list, fails with a DeviceNotFoundError
  when the list is \<^verbatim>\<open>null\<close> or no entry resolves to the target name, returns the path of
  the only match, and the path of the last match when there are several. The code
  tests the cached field after the scan, not what the scan found: on an instance that
  cached \<open>COM5\<close> in an earlier flash, a rescan over a list in which no entry resolves to
  the target name does not fail; it resolves and keeps \<open>COM5\<close>. The second
  equation shows that an earlier flash leaves the instance in that state.
\<close>

theorem rescan_miss_resolves_with_cached_path:
  "leonardo example_platform (example_flash_env (Some []) [])
     ((example_instance leonardo_config)\<lparr>leonardoPath := Some ''COM5''\<rparr>) =
   ((example_instance leonardo_config)
      \<lparr>leonardoPath := Some ''COM5'', peripheralParams := \<lparr>baudRate = 1200\<rparr>\<rparr>,
    [Connect \<lparr>baudRate = 1200\<rparr> True, Wait 100, Disconnect, Wait 1000, ListDevices],
    Fulfilled ())
   \<and> fst (flash example_platform
            (example_flash_env (Some [bootloader_device ''COM5'']) [Exit 0])
            (example_instance leonardo_config) None) =
     (example_instance leonardo_config)
       \<lparr>leonardoPath := Some ''COM5'', peripheralParams := \<lparr>baudRate = 1200\<rparr>\<rparr>"
  by (simp add: example_defs flash_defs)

section \<open>Exit codes of the programmer\<close>

text \<open>
  The handler of the programmer's exit: code 0 resolves, after a wait of 1000 ms for
  the two touch-reset boards and at once for every other board; code 1 rejects with
  \<open>avrdude failed to flash\<close> (FlashFailed); any other code does nothing.
\<close>

lemma flash_exit_mapped:
  "flash_exit a 0 =
     (if fqbn (config a) = ''arduino:avr:leonardo'' \<or> fqbn (config a) = ''SparkFun:avr:makeymakey''
      then [Wait 1000, Resolve ''Success''] else [Resolve ''Success''])"
  "flash_exit a 1 = [Reject (Error ''avrdude failed to flash'')]"
  by (simp_all add: flash_exit_def)

lemma flash_exit_unmapped: "code \<notin> {0, 1} \<Longrightarrow> flash_exit a code = []"
  by (simp add: flash_exit_def)

text \<open>A flash whose programmer only reports such an exit never settles.\<close>

lemma flash_pending_on_other_exit:
  assumes "code \<notin> {0, 1}"
    and "fqbn (config a) \<noteq> ''arduino:avr:leonardo''" and "fqbn (config a) \<noteq> ''SparkFun:avr:makeymakey''"
    and "avrdude env = [Exit code]"
  shows "settled (snd (flash pf env a firmwarePath)) = Pending"
  using assms by (simp add: flash_def handshake_def flash_exit_def)

text \<open>
  Claim C6: \<^verbatim>\<open>flash\<close> maps the exit code 0 to Success (after a settle delay of 1000 ms
  for a touch-reset board), 1 to FlashFailed, and any other exit code still surfaces
  a failure to the caller. The code does not do the last part: when the programmer
  exits with code 2 on an Uno, the trace ends with the spawn and the promise stays
  pending for ever.
\<close>

theorem flash_unmapped_exit_code_pending:
  "snd (flash example_platform (example_flash_env None [Exit 2])
          (example_instance uno_config) None) =
   [Spawn ''/tools/Arduino/hardware/tools/avr/bin/avrdude''
      [''-C'', ''/tools/Arduino/hardware/tools/avr/etc/avrdude.conf'', ''-v'',
       ''-patmega328p'', ''-carduino'', ''-PCOM3'', ''-b115200'', ''-D'',
       ''-Uflash:w:/data/arduino/project/build/arduino.ino.hex:i'']]
   \<and> settled (snd (flash example_platform (example_flash_env None [Exit 2])
                     (example_instance uno_config) None)) = Pending"
  by (simp add: example_defs flash_defs)

section \<open>Boards without a touch reset\<close>

text \<open>The events that the handlers of the programmer's streams and exit can add to a trace.\<close>

lemma flash_proc_events:
  "e \<in> set (concat (map (flash_proc pf a) signals)) \<Longrightarrow>
   (\<exists>text. e = Sendstd text) \<or> e = Wait 1000 \<or> e = Resolve ''Success''
   \<or> e = Reject (Error ''avrdude failed to flash'')"
proof (induction signals)
  case Nil
  then show ?case by simp
next
  case (Cons s signals)
  then show ?case
    by (cases s) (auto simp: flash_exit_def split: if_splits)
qed

lemma handshake_other_board:
  "fqbn (config a) \<noteq> ''arduino:avr:leonardo'' \<Longrightarrow> fqbn (config a) \<noteq> ''SparkFun:avr:makeymakey'' \<Longrightarrow>
   handshake pf env a = (a, [], Fulfilled ())"
  by (simp add: handshake_def)

lemma flash_other_board:
  "fqbn (config a) \<noteq> ''arduino:avr:leonardo'' \<Longrightarrow> fqbn (config a) \<noteq> ''SparkFun:avr:makeymakey'' \<Longrightarrow>
   flash pf env a firmwarePath =
     (a, Spawn (avrdudePath a) (flash_args a firmwarePath) # concat (map (flash_proc pf a) (avrdude env)))"
  by (simp add: flash_def handshake_other_board)

lemma flashes_other_board:
  "fqbn (config a) \<noteq> ''arduino:avr:leonardo'' \<Longrightarrow> fqbn (config a) \<noteq> ''SparkFun:avr:makeymakey'' \<Longrightarrow>
   flashes pf a calls = a"
proof (induction calls)
  case Nil
  then show ?case by simp
next
  case (Cons call calls)
  then show ?case by (cases call) (simp add: flash_other_board)
qed

text \<open>
  Claim C5: for every board whose identifier is neither \<open>arduino:avr:leonardo\<close> nor
  \<open>SparkFun:avr:makeymakey\<close>, \<^verbatim>\<open>flash\<close> never performs the bootloader handshake (no call
  of connect, disconnect or list) and the port argument passed to the programmer is
  the originally supplied peripheral path. The instance is the one the constructor
  made, after any number of earlier \<^verbatim>\<open>flash\<close> calls in any environments: the trace of
  the call is the spawn of the programmer followed by the events of its streams and
  exit, and the sixth argument of the spawn is \<open>-P\<close> followed by the supplied path.
\<close>

theorem flash_other_board_keeps_supplied_path:
  assumes "fqbn cfg \<noteq> ''arduino:avr:leonardo''" and "fqbn cfg \<noteq> ''SparkFun:avr:makeymakey''"
    and "a = flashes pf (constructor pf port cfg userData tools params) calls"
  shows "snd (flash pf env a firmwarePath) =
           Spawn (avrdudePath a) (flash_args a firmwarePath)
           # concat (map (flash_proc pf a) (avrdude env))
         \<and> flash_args a firmwarePath ! 5 = ''-P'' @ port
         \<and> (\<forall>e \<in> set (snd (flash pf env a firmwarePath)).
               e \<noteq> Disconnect \<and> e \<noteq> ListDevices \<and> (\<forall>params' exclusive. e \<noteq> Connect params' exclusive))"
proof -
  let ?a0 = "constructor pf port cfg userData tools params"
  have cfg0: "config ?a0 = cfg" by (simp add: constructor_def Let_def)
  have a: "a = ?a0" using assms flashes_other_board[of ?a0 pf calls] by (simp add: cfg0)
  have other: "fqbn (config a) \<noteq> ''arduino:avr:leonardo''" "fqbn (config a) \<noteq> ''SparkFun:avr:makeymakey''"
    using assms(1,2) a cfg0 by simp_all
  have trace: "snd (flash pf env a firmwarePath) =
      Spawn (avrdudePath a) (flash_args a firmwarePath) # concat (map (flash_proc pf a) (avrdude env))"
    by (simp add: flash_other_board[OF other])
  have port: "flash_args a firmwarePath ! 5 = ''-P'' @ port"
    unfolding a by (simp add: flash_args_def port_arg_def constructor_def Let_def)
  have quiet: "e \<noteq> Disconnect \<and> e \<noteq> ListDevices \<and> (\<forall>params' exclusive. e \<noteq> Connect params' exclusive)"
    if "e \<in> set (snd (flash pf env a firmwarePath))" for e
  proof -
    from that trace have "e = Spawn (avrdudePath a) (flash_args a firmwarePath)
        \<or> e \<in> set (concat (map (flash_proc pf a) (avrdude env)))" by simp
    then show ?thesis using flash_proc_events[of e pf a "avrdude env"] by auto
  qed
  from trace port quiet show ?thesis by blast
qed

theorem flash_other_board_keeps_supplied_path_witness:
  "fqbn uno_config \<noteq> ''arduino:avr:leonardo'' \<and> fqbn uno_config \<noteq> ''SparkFun:avr:makeymakey''
   \<and> flash_args (flashes example_platform (example_instance uno_config)
                    [(example_flash_env None [Exit 1], None)]) None ! 5 = ''-PCOM3''
   \<and> ListDevices \<notin> set (snd (flash example_platform (example_flash_env None [Exit 0])
                                (flashes example_platform (example_instance uno_config)
                                   [(example_flash_env None [Exit 1], None)]) None))"
proof -
  have h1: "fqbn uno_config \<noteq> ''arduino:avr:leonardo''"
    and h2: "fqbn uno_config \<noteq> ''SparkFun:avr:makeymakey''"
    by (simp_all add: uno_config_def)
  have h3: "flashes example_platform (example_instance uno_config)
              [(example_flash_env None [Exit 1], None)] =
            flashes example_platform
              (constructor example_platform ''COM3'' uno_config ''/data'' ''/tools''
                 \<lparr>baudRate = 115200\<rparr>)
              [(example_flash_env None [Exit 1], None)]"
    by (simp only: example_instance_def)
  from flash_other_board_keeps_supplied_path
         [OF h1 h2 h3, of "example_flash_env None [Exit 0]" None]
  show ?thesis using h1 h2 by auto
qed

section \<open>The order of the handshake\<close>

lemma leonardo_trace:
  assumes "connect_result env = Fulfilled ()" and "disconnect_result env = Fulfilled ()"
  shows "fst (snd (leonardo pf env a)) =
           [Connect ((peripheralParams a)\<lparr>baudRate := 1200\<rparr>) True, Wait 100, Disconnect,
            Wait 1000, ListDevices]"
  using assms
  by (simp add: leonardo_def touch_fulfilled Let_def split: promise.split option.split)

lemma makeymakey_trace:
  assumes "connect_result env = Fulfilled ()" and "disconnect_result env = Fulfilled ()"
  shows "fst (snd (makeymakey pf env a)) =
           [Connect ((peripheralParams a)\<lparr>baudRate := 1200\<rparr>) True, Wait 100, Disconnect,
            Wait 1000, ListDevices]"
  using assms
  by (simp add: makeymakey_def touch_fulfilled Let_def split: promise.split option.split)

lemma flash_trace:
  "\<exists>rest. snd (flash pf env a firmwarePath) = fst (snd (handshake pf env a)) @ rest
     \<and> (\<forall>e \<in> set rest. e \<noteq> Disconnect \<and> e \<noteq> ListDevices
            \<and> (\<forall>params' exclusive. e \<noteq> Connect params' exclusive))"
proof (cases "handshake pf env a")
  case (fields a1 t r)
  show ?thesis
  proof (cases r)
    case (Fulfilled u)
    have "\<forall>e \<in> set (Spawn (avrdudePath a1) (flash_args a1 firmwarePath)
                     # concat (map (flash_proc pf a1) (avrdude env))).
            e \<noteq> Disconnect \<and> e \<noteq> ListDevices \<and> (\<forall>params' exclusive. e \<noteq> Connect params' exclusive)"
      using flash_proc_events[of _ pf a1 "avrdude env"] by auto
    with fields Fulfilled show ?thesis
      by (intro exI[of _ "Spawn (avrdudePath a1) (flash_args a1 firmwarePath)
                     # concat (map (flash_proc pf a1) (avrdude env))"]) (simp add: flash_def)
  next
    case (Rejected err)
    with fields show ?thesis by (intro exI[of _ "[Reject err]"]) (simp add: flash_def)
  next
    case Pending
    with fields show ?thesis by (intro exI[of _ "[]"]) (simp add: flash_def)
  qed
qed

text \<open>
  Claim C7, amended: for a touch-reset board whose \<^verbatim>\<open>connect\<close> and \<^verbatim>\<open>disconnect\<close> promises
  are fulfilled, \<^verbatim>\<open>flash\<close> starts with exactly this sequence: one connect with the baud
  rate overridden to 1200, a wait of 100 ms, one disconnect, a wait of 1000 ms, one
  call of list; no further connect, disconnect or list follows in the call.
\<close>

theorem touch_reset_handshake_order:
  assumes "fqbn (config a) = ''arduino:avr:leonardo'' \<or> fqbn (config a) = ''SparkFun:avr:makeymakey''"
    and "connect_result env = Fulfilled ()" and "disconnect_result env = Fulfilled ()"
  shows "\<exists>rest. snd (flash pf env a firmwarePath) =
           [Connect ((peripheralParams a)\<lparr>baudRate := 1200\<rparr>) True, Wait 100, Disconnect,
            Wait 1000, ListDevices] @ rest
         \<and> (\<forall>e \<in> set rest. e \<noteq> Disconnect \<and> e \<noteq> ListDevices
                \<and> (\<forall>params' exclusive. e \<noteq> Connect params' exclusive))"
proof -
  have "fst (snd (handshake pf env a)) =
          [Connect ((peripheralParams a)\<lparr>baudRate := 1200\<rparr>) True, Wait 100, Disconnect,
           Wait 1000, ListDevices]"
    using assms(1) leonardo_trace[OF assms(2,3)] makeymakey_trace[OF assms(2,3)]
    by (auto simp: handshake_def)
  with flash_trace[of pf env a firmwarePath] show ?thesis by simp
qed

theorem touch_reset_handshake_order_witness:
  "fqbn (config (example_instance leonardo_config)) = ''arduino:avr:leonardo''
   \<and> connect_result (example_flash_env (Some [bootloader_device ''COM5'']) [Exit 0]) = Fulfilled ()
   \<and> disconnect_result (example_flash_env (Some [bootloader_device ''COM5'']) [Exit 0]) = Fulfilled ()
   \<and> take 5 (snd (flash example_platform (example_flash_env (Some [bootloader_device ''COM5'']) [Exit 0])
                     (example_instance leonardo_config) None)) =
     [Connect \<lparr>baudRate = 1200\<rparr> True, Wait 100, Disconnect, Wait 1000, ListDevices]"
proof -
  have h1: "fqbn (config (example_instance leonardo_config)) = ''arduino:avr:leonardo''
            \<or> fqbn (config (example_instance leonardo_config)) = ''SparkFun:avr:makeymakey''"
    by (simp add: example_defs Let_def)
  have h2: "connect_result (example_flash_env (Some [bootloader_device ''COM5'']) [Exit 0]) = Fulfilled ()"
    and h3: "disconnect_result (example_flash_env (Some [bootloader_device ''COM5'']) [Exit 0]) = Fulfilled ()"
    by (simp_all add: example_flash_env_def)
  have p: "(peripheralParams (example_instance leonardo_config))\<lparr>baudRate := 1200\<rparr> = \<lparr>baudRate = 1200\<rparr>"
    by (simp add: example_defs Let_def)
  from touch_reset_handshake_order[OF h1 h2 h3, of example_platform None]
  obtain rest where
    "snd (flash example_platform (example_flash_env (Some [bootloader_device ''COM5'']) [Exit 0])
            (example_instance leonardo_config) None) =
     [Connect \<lparr>baudRate = 1200\<rparr> True, Wait 100, Disconnect, Wait 1000, ListDevices] @ rest"
    unfolding p by blast
  then show ?thesis using h2 h3 by (simp add: example_defs Let_def)
qed

text \<open>
  Claim C7 as stated has connect, disconnect and list called exactly once each in every
  handshake. When the promise of \<^verbatim>\<open>connect\<close> rejects, the awaiting method ends there:
  the port is never closed, the list is never read, and \<^verbatim>\<open>flash\<close> is rejected with the
  error of \<^verbatim>\<open>connect\<close>.
\<close>

theorem handshake_stops_when_connect_rejects:
  "snd (flash example_platform
          ((example_flash_env (Some [bootloader_device ''COM5'']) [Exit 0])
             \<lparr>connect_result := Rejected (Error ''Access denied'')\<rparr>)
          (example_instance leonardo_config) None) =
   [Connect \<lparr>baudRate = 1200\<rparr> True, Reject (Error ''Access denied'')]"
  by (simp add: example_defs flash_defs)

section \<open>The arguments of the builder\<close>

lemma build_proc_no_spawn: "Spawn prog args \<notin> set (build_proc pf s)"
  by (cases s) (simp_all add: build_exit_def)

lemma build_later_no_spawn: "Spawn prog args \<notin> set (build_later pf env a code signals)"
proof (induction signals arbitrary: code)
  case Nil
  then show ?case by simp
next
  case (Cons s signals)
  then show ?case
    by (cases s) (simp_all add: build_proc_no_spawn Let_def split: option.split)
qed

lemma build_spawn_args:
  assumes "Spawn prog args \<in> set (build pf env a code)"
  shows "prog = arduinoBuilderPath a \<and> args = build_args pf env a"
proof (cases "ensure_dir env (projectPath a)")
  case (Inl err)
  with assms show ?thesis by (simp add: build_def)
next
  case t1: (Inr t1)
  show ?thesis
  proof (cases "ensure_dir env (join pf (tempfilePath a) ''cache'')")
    case (Inl err)
    with t1 assms ensure_dir_events[OF t1] show ?thesis by (auto simp: build_def)
  next
    case t2: (Inr t2)
    with t1 assms ensure_dir_events[OF t1] ensure_dir_events[OF t2] show ?thesis
      by (auto simp: build_def build_later_no_spawn)
  qed
qed

text \<open>
  Claim C8, amended: when the extensions-libraries directory exists, \<^verbatim>\<open>build\<close> inserts
  the pair \<open>-libraries\<close>, path at index 6 of the fixed list, that is between the two
  \<open>-tools\<close> pairs and so before the base \<open>-libraries\<close> pair; when the directory does
  not exist, the argument list is exactly the fixed base list.
\<close>

theorem build_extensions_libraries_position:
  assumes "Spawn prog args \<in> set (build pf env a code)"
  shows "(existsSync env (join pf (userDataPath a) ''../extensions/libraries/Arduino'') \<longrightarrow>
            args =
              [''-compile'',
               ''-logger=human'',
               ''-hardware'', join pf (arduinoPath a) ''hardware'',
               ''-tools'', join pf (arduinoPath a) ''tools-builder'',
               ''-libraries'', join pf (userDataPath a) ''../extensions/libraries/Arduino'',
               ''-tools'', join pf (arduinoPath a) ''hardware/tools/avr'',
               ''-libraries'', join pf (arduinoPath a) ''libraries'',
               ''-fqbn'', fqbn (config a),
               ''-build-path'', join pf (tempfilePath a) ''build'',
               ''-build-cache'', join pf (tempfilePath a) ''cache'',
               ''-warnings=none'',
               ''-verbose'',
               codefilePath a])
         \<and> (\<not> existsSync env (join pf (userDataPath a) ''../extensions/libraries/Arduino'') \<longrightarrow>
            args = base_args pf a)"
  using build_spawn_args[OF assms]
  by (simp add: build_args_def splice_def base_args_def extensionsLibraries_def)

theorem build_extensions_libraries_position_witness:
  "Spawn ''/tools/Arduino/arduino-builder''
     [''-compile'', ''-logger=human'',
      ''-hardware'', ''/tools/Arduino/hardware'',
      ''-tools'', ''/tools/Arduino/tools-builder'',
      ''-libraries'', ''/data/../extensions/libraries/Arduino'',
      ''-tools'', ''/tools/Arduino/hardware/tools/avr'',
      ''-libraries'', ''/tools/Arduino/libraries'',
      ''-fqbn'', ''arduino:avr:uno'',
      ''-build-path'', ''/data/arduino/project/build'',
      ''-build-cache'', ''/data/arduino/project/cache'',
      ''-warnings=none'', ''-verbose'', ''/data/arduino/project/arduino.ino'']
     \<in> set (build example_platform (example_build_env True []) (example_instance uno_config) ''void setup(){}'')
   \<and> existsSync (example_build_env True []) ''/data/../extensions/libraries/Arduino''"
proof -
  let ?args = "build_args example_platform (example_build_env True []) (example_instance uno_config)"
  have h: "Spawn ''/tools/Arduino/arduino-builder'' ?args
      \<in> set (build example_platform (example_build_env True []) (example_instance uno_config) ''void setup(){}'')"
    by (simp add: example_defs Let_def build_def ensure_dir_def)
  have ex: "existsSync (example_build_env True [])
              (join example_platform (userDataPath (example_instance uno_config)) ''../extensions/libraries/Arduino'')"
    by (simp add: example_defs Let_def)
  from build_extensions_libraries_position[OF h] ex
  have "?args = [''-compile'', ''-logger=human'',
      ''-hardware'', ''/tools/Arduino/hardware'',
      ''-tools'', ''/tools/Arduino/tools-builder'',
      ''-libraries'', ''/data/../extensions/libraries/Arduino'',
      ''-tools'', ''/tools/Arduino/hardware/tools/avr'',
      ''-libraries'', ''/tools/Arduino/libraries'',
      ''-fqbn'', ''arduino:avr:uno'',
      ''-build-path'', ''/data/arduino/project/build'',
      ''-build-cache'', ''/data/arduino/project/cache'',
      ''-warnings=none'', ''-verbose'', ''/data/arduino/project/arduino.ino'']"
    by (simp add: example_defs Let_def)
  with h show ?thesis by (simp add: example_build_env_def)
qed

text \<open>
  Claim C8 as stated puts the extensions pair immediately after the base \<open>-libraries\<close>
  argument, the base libraries path first. In the code the extensions pair comes
  first, and a \<open>-tools\<close> pair separates the two.
\<close>

theorem extensions_libraries_precede_base_libraries:
  "build_args example_platform (example_build_env True []) (example_instance uno_config) =
     [''-compile'', ''-logger=human'',
      ''-hardware'', ''/tools/Arduino/hardware'',
      ''-tools'', ''/tools/Arduino/tools-builder'',
      ''-libraries'', ''/data/../extensions/libraries/Arduino'',
      ''-tools'', ''/tools/Arduino/hardware/tools/avr'',
      ''-libraries'', ''/tools/Arduino/libraries'',
      ''-fqbn'', ''arduino:avr:uno'',
      ''-build-path'', ''/data/arduino/project/build'',
      ''-build-cache'', ''/data/arduino/project/cache'',
      ''-warnings=none'', ''-verbose'', ''/data/arduino/project/arduino.ino'']
   \<and> build_args example_platform (example_build_env True []) (example_instance uno_config) \<noteq>
     [''-compile'', ''-logger=human'',
      ''-hardware'', ''/tools/Arduino/hardware'',
      ''-tools'', ''/tools/Arduino/tools-builder'',
      ''-tools'', ''/tools/Arduino/hardware/tools/avr'',
      ''-libraries'', ''/tools/Arduino/libraries'',
      ''-libraries'', ''/data/../extensions/libraries/Arduino'',
      ''-fqbn'', ''arduino:avr:uno'',
      ''-build-path'', ''/data/arduino/project/build'',
      ''-build-cache'', ''/data/arduino/project/cache'',
      ''-warnings=none'', ''-verbose'', ''/data/arduino/project/arduino.ino'']"
  by (simp add: example_defs Let_def build_args_def splice_def base_args_def extensionsLibraries_def)

section \<open>The port argument\<close>

lemma touch_state:
  "fst (touch env a) = a\<lparr>peripheralParams := (peripheralParams a)\<lparr>baudRate := 1200\<rparr>\<rparr>"
  by (simp add: touch_def Let_def split: promise.split)

lemma touch_events:
  "e \<in> set (fst (snd (touch env a))) \<Longrightarrow> (\<forall>prog args. e \<noteq> Spawn prog args)"
  by (auto simp: touch_def Let_def split: promise.splits)

lemma leonardo_no_spawn:
  "Spawn prog args \<notin> set (fst (snd (leonardo pf env a)))"
proof (cases "touch env a")
  case (fields a1 t r)
  with touch_events[of _ env a] have "Spawn prog args \<notin> set t" by auto
  with fields show ?thesis
    by (auto simp: leonardo_def Let_def split: promise.splits option.splits)
qed

lemma makeymakey_no_spawn:
  "Spawn prog args \<notin> set (fst (snd (makeymakey pf env a)))"
proof (cases "touch env a")
  case (fields a1 t r)
  with touch_events[of _ env a] have "Spawn prog args \<notin> set t" by auto
  with fields show ?thesis
    by (auto simp: makeymakey_def Let_def split: promise.splits option.splits)
qed

lemma handshake_no_spawn:
  "Spawn prog args \<notin> set (fst (snd (handshake pf env a)))"
  by (simp add: handshake_def leonardo_no_spawn makeymakey_no_spawn)

lemma flash_proc_no_spawn:
  "Spawn prog args \<notin> set (concat (map (flash_proc pf a) signals))"
  using flash_proc_events[of "Spawn prog args" pf a signals] by auto

lemma flash_spawn_args:
  assumes "Spawn prog args \<in> set (snd (flash pf env a firmwarePath))"
  shows "args = flash_args (fst (flash pf env a firmwarePath)) firmwarePath"
proof (cases "handshake pf env a")
  case (fields a1 t r)
  with handshake_no_spawn[of prog args pf env a] have t: "Spawn prog args \<notin> set t" by simp
  show ?thesis
  proof (cases r)
    case (Fulfilled u)
    with fields assms t flash_proc_no_spawn[of prog args pf a1 "avrdude env"] show ?thesis
      by (auto simp: flash_def)
  next
    case (Rejected err)
    with fields assms t show ?thesis by (simp add: flash_def)
  next
    case Pending
    with fields assms t show ?thesis by (simp add: flash_def)
  qed
qed

lemma makeymakey_keeps_leonardoPath:
  "leonardoPath (fst (makeymakey pf env a)) = leonardoPath a"
proof (cases "touch env a")
  case (fields a1 t r)
  with touch_state[of env a] have "leonardoPath a1 = leonardoPath a" by simp
  with fields show ?thesis
    by (auto simp: makeymakey_def Let_def split: promise.splits option.splits)
qed

lemma flash_keeps_leonardoPath:
  assumes "fqbn (config a) \<noteq> ''arduino:avr:leonardo''"
  shows "leonardoPath (fst (flash pf env a firmwarePath)) = leonardoPath a"
proof -
  have "leonardoPath (fst (handshake pf env a)) = leonardoPath a"
    using assms by (simp add: handshake_def makeymakey_keeps_leonardoPath)
  then show ?thesis
    by (cases "handshake pf env a") (auto simp: flash_def split: promise.splits)
qed

text \<open>
  Claim C10, amended: on every \<^verbatim>\<open>flash\<close> that spawns the programmer, the port argument
  is selected by a fixed precedence that does not consult the board profile: the
  cached Leonardo path when it is neither \<^verbatim>\<open>null\<close> nor the empty string, otherwise the
  cached Makey Makey path when it is neither \<^verbatim>\<open>null\<close> nor the empty string, otherwise
  the originally supplied peripheral path. So a cached Leonardo path that is not empty
  is used even when the board profile is a Makey Makey or a board without touch reset.
\<close>

theorem port_argument_precedence:
  assumes "Spawn prog args \<in> set (snd (flash pf env a firmwarePath))"
    and "a' = fst (flash pf env a firmwarePath)"
  shows "args ! 5 =
           (if leonardoPath a' \<notin> {None, Some []} then ''-P'' @ the (leonardoPath a')
            else if makeymakeyPath a' \<notin> {None, Some []} then ''-P'' @ the (makeymakeyPath a')
            else ''-P'' @ peripheralPath a')
         \<and> (fqbn (config a) \<noteq> ''arduino:avr:leonardo'' \<longrightarrow> leonardoPath a = Some cached
              \<longrightarrow> cached \<noteq> [] \<longrightarrow> args ! 5 = ''-P'' @ cached)"
proof -
  have truthy_iff: "truthy v \<longleftrightarrow> v \<notin> {None, Some []}" for v
    by (cases v) simp_all
  have render_the: "truthy v \<Longrightarrow> render v = the v" for v
    by (cases v) simp_all
  have args: "args ! 5 = port_arg a'"
    using flash_spawn_args[OF assms(1)] assms(2) by (simp add: flash_args_def)
  then have first: "args ! 5 =
           (if leonardoPath a' \<notin> {None, Some []} then ''-P'' @ the (leonardoPath a')
            else if makeymakeyPath a' \<notin> {None, Some []} then ''-P'' @ the (makeymakeyPath a')
            else ''-P'' @ peripheralPath a')"
    using render_the[of "leonardoPath a'"] render_the[of "makeymakeyPath a'"]
    by (simp add: port_arg_def truthy_iff del: insert_iff)
  have second: "args ! 5 = ''-P'' @ cached"
    if "fqbn (config a) \<noteq> ''arduino:avr:leonardo''" "leonardoPath a = Some cached" "cached \<noteq> []"
  proof -
    from that(1,2) assms(2) have "leonardoPath a' = Some cached"
      by (simp add: flash_keeps_leonardoPath)
    with that(3) args show ?thesis by (simp add: port_arg_def)
  qed
  from first second show ?thesis by blast
qed

theorem port_argument_precedence_witness:
  "fqbn (config ((example_instance uno_config)\<lparr>leonardoPath := Some ''COM5''\<rparr>))
     \<noteq> ''arduino:avr:leonardo''
   \<and> Spawn ''/tools/Arduino/hardware/tools/avr/bin/avrdude''
        (flash_args ((example_instance uno_config)\<lparr>leonardoPath := Some ''COM5''\<rparr>) None)
      \<in> set (snd (flash example_platform (example_flash_env None [Exit 0])
                     ((example_instance uno_config)\<lparr>leonardoPath := Some ''COM5''\<rparr>) None))
   \<and> flash_args ((example_instance uno_config)\<lparr>leonardoPath := Some ''COM5''\<rparr>) None ! 5
      = ''-PCOM5''"
proof -
  let ?a = "(example_instance uno_config)\<lparr>leonardoPath := Some ''COM5''\<rparr>"
  have h1: "fqbn (config ?a) \<noteq> ''arduino:avr:leonardo''"
    by (simp add: example_defs Let_def)
  have h2: "Spawn ''/tools/Arduino/hardware/tools/avr/bin/avrdude'' (flash_args ?a None)
              \<in> set (snd (flash example_platform (example_flash_env None [Exit 0]) ?a None))"
    by (simp add: example_defs flash_def handshake_def Let_def)
  have h3: "leonardoPath ?a = Some ''COM5''"
    by simp
  have h4: "''COM5'' \<noteq> []"
    by simp
  from port_argument_precedence[OF h2 refl, of "''COM5''"]
  have "fqbn (config ?a) \<noteq> ''arduino:avr:leonardo'' \<longrightarrow> leonardoPath ?a = Some ''COM5''
          \<longrightarrow> ''COM5'' \<noteq> [] \<longrightarrow> flash_args ?a None ! 5 = ''-P'' @ ''COM5''"
    by (rule conjunct2)
  with h1 h3 h4 have "flash_args ?a None ! 5 = ''-P'' @ ''COM5''"
    by blast
  with h1 h2 show ?thesis by simp
qed

text \<open>
  Claim C10 as stated selects the cached Leonardo path whenever it is not \<^verbatim>\<open>null\<close>. The
  conditionals test truthiness: a rescan that finds the Leonardo bootloader with an
  empty path caches the empty string, which is not \<^verbatim>\<open>null\<close>, and the programmer is
  then given the originally supplied path \<open>COM3\<close>.
\<close>

theorem empty_cached_path_is_skipped:
  "leonardoPath (fst (flash example_platform
                        (example_flash_env (Some [bootloader_device []]) [Exit 0])
                        (example_instance leonardo_config) None)) = Some []
   \<and> snd (flash example_platform (example_flash_env (Some [bootloader_device []]) [Exit 0])
            (example_instance leonardo_config) None) =
   [Connect \<lparr>baudRate = 1200\<rparr> True, Wait 100, Disconnect, Wait 1000, ListDevices,
    Spawn ''/tools/Arduino/hardware/tools/avr/bin/avrdude''
      [''-C'', ''/tools/Arduino/hardware/tools/avr/etc/avrdude.conf'', ''-v'',
       ''-patmega32u4'', ''-cavr109'', ''-PCOM3'', ''-b57600'', ''-D'',
       ''-Uflash:w:/data/arduino/project/build/arduino.ino.hex:i''],
    Wait 1000, Resolve ''Success'']"
  by (simp add: example_defs flash_defs)

section \<open>The classification of the programmer's error stream\<close>

subsection \<open>What \<open>search\<close> finds\<close>

text \<open>
  \<open>search\<close> returns the first position at which a pattern of the set matches, and
  \<open>None\<close> exactly when there is no such position.
\<close>

lemma matches_at_0: "matches_at pats s 0 \<longleftrightarrow> (\<exists>p \<in> set pats. prefix p s)"
  by (simp add: matches_at_def)

lemma matches_at_Suc: "matches_at pats (c # cs) (Suc i) \<longleftrightarrow> matches_at pats cs i"
  by (simp add: matches_at_def)

lemma matches_at_Nil: "matches_at pats [] i \<longleftrightarrow> [] \<in> set pats"
  by (auto simp: matches_at_def)

lemma search_Some:
  "search pats s = Some i \<Longrightarrow>
   i \<le> length s \<and> matches_at pats s i \<and> (\<forall>j < i. \<not> matches_at pats s j)"
proof (induction s arbitrary: i)
  case Nil
  then show ?case by (auto simp: matches_at_Nil split: if_splits)
next
  case (Cons c cs)
  show ?case
  proof (cases "\<exists>p \<in> set pats. prefix p (c # cs)")
    case True
    with Cons.prems show ?thesis by (simp add: matches_at_0)
  next
    case False
    with Cons.prems obtain k where k: "search pats cs = Some k" "i = Suc k" by auto
    from Cons.IH[OF k(1)] have ih: "k \<le> length cs" "matches_at pats cs k"
      "\<forall>j < k. \<not> matches_at pats cs j" by auto
    have "\<not> matches_at pats (c # cs) j" if "j < Suc k" for j
    proof (cases j)
      case 0
      with False show ?thesis by (simp add: matches_at_0)
    next
      case (Suc j')
      with that ih(3) show ?thesis by (simp add: matches_at_Suc)
    qed
    with ih k(2) show ?thesis by (simp add: matches_at_Suc)
  qed
qed

lemma search_None: "search pats s = None \<Longrightarrow> \<not> matches_at pats s j"
proof (induction s arbitrary: j)
  case Nil
  then show ?case by (simp add: matches_at_Nil split: if_splits)
next
  case (Cons c cs)
  then have nm: "\<not> (\<exists>p \<in> set pats. prefix p (c # cs))" and rest: "search pats cs = None"
    by (auto split: if_splits)
  show ?case
  proof (cases j)
    case 0
    with nm show ?thesis by (simp add: matches_at_0)
  next
    case (Suc j')
    with Cons.IH[OF rest] show ?thesis by (simp add: matches_at_Suc)
  qed
qed

lemma search_first_match:
  assumes "matches_at pats s i" and "i \<le> length s" and "\<forall>j < i. \<not> matches_at pats s j"
  shows "search pats s = Some i"
proof (cases "search pats s")
  case None
  with search_None assms(1) show ?thesis by blast
next
  case (Some k)
  from search_Some[OF Some] have k: "matches_at pats s k" "\<forall>j < k. \<not> matches_at pats s j" by auto
  have "k = i"
  proof (rule ccontr)
    assume "k \<noteq> i"
    then have "k < i \<or> i < k" by arith
    with k assms show False by blast
  qed
  with Some show ?thesis by simp
qed

text \<open>The search of the program finds the first match.\<close>

lemma search_eq_first_match: "search pats s = first_match pats s"
proof (cases "search pats s")
  case None
  then have "\<not> matches_at pats s j" for j by (rule search_None)
  then have "first_match pats s = None" by (simp add: first_match_def find_None_iff)
  with None show ?thesis by simp
next
  case (Some i)
  from search_Some[OF Some] have i: "i \<le> length s" "matches_at pats s i"
    and first: "\<forall>j < i. \<not> matches_at pats s j" by auto
  have "\<exists>k < length [0..<Suc (length s)].
          matches_at pats s ([0..<Suc (length s)] ! k) \<and> i = [0..<Suc (length s)] ! k
          \<and> (\<forall>j < k. \<not> matches_at pats s ([0..<Suc (length s)] ! j))"
  proof (intro exI[of _ i] conjI allI impI)
    show "i < length [0..<Suc (length s)]" using i(1) by simp
    then have nth: "[0..<Suc (length s)] ! j = j" if "j \<le> i" for j
      using that by (simp del: upt_Suc)
    show "matches_at pats s ([0..<Suc (length s)] ! i)" using i(2) nth[of i] by simp
    show "i = [0..<Suc (length s)] ! i" using nth[of i] by simp
    show "\<not> matches_at pats s ([0..<Suc (length s)] ! j)" if "j < i" for j
      using that first nth[of j] by simp
  qed
  then have "first_match pats s = Some i"
    unfolding first_match_def find_Some_iff .
  with Some show ?thesis by simp
qed

subsection \<open>An insertion and the matches around it\<close>

text \<open>
  Inserting an inert string at a position that no match reaches across keeps every
  match and creates none: the matches of the new string are those of the old one, moved
  by the length of the insertion when they lie behind it. So a later search finds the
  same first match.
\<close>

lemma drop_insertStr_after:
  assumes "q \<le> length d" and "q + length m \<le> j"
  shows "drop j (insertStr d q m) = drop (j - length m) d"
proof -
  from assms have "drop j (take q d @ m @ drop q d) = drop (j - q - length m) (drop q d)"
    by simp
  also from assms have "\<dots> = drop (j - length m) d" by simp
  finally show ?thesis by (simp add: insertStr_def)
qed

lemma drop_insertStr_inside:
  assumes "q \<le> length d" and "q \<le> j" and "j < q + length m"
  shows "drop j (insertStr d q m) = drop (j - q) m @ drop q d"
  using assms by (simp add: insertStr_def)

lemma drop_insertStr_before:
  assumes "q \<le> length d" and "j < q"
  shows "drop j (insertStr d q m) = take (q - j) (drop j d) @ m @ drop q d"
  using assms by (simp add: insertStr_def take_drop add.commute)

lemma prefix_append_long:
  assumes "prefix p (a @ b)" and "length a < length p"
  obtains p' where "p = a @ p'" and "prefix p' b" and "p' \<noteq> []"
proof -
  from assms(1) consider "prefix p a" | us where "p = a @ us" "prefix us b"
    unfolding prefix_append by blast
  then show thesis
  proof cases
    case 1
    then have "length p \<le> length a" by (rule prefix_length_le)
    with assms(2) show thesis by simp
  next
    case 2
    with assms(2) have "us \<noteq> []" by auto
    with 2 that show thesis by blast
  qed
qed

lemma prefix_append_short:
  assumes "prefix p (a @ b)" and "length p \<le> length a"
  shows "prefix p a"
proof -
  from assms(1) consider "prefix p a" | us where "p = a @ us" "prefix us b"
    unfolding prefix_append by blast
  then show ?thesis
  proof cases
    case 1
    then show ?thesis .
  next
    case 2
    with assms(2) have "us = []" by auto
    with 2 show ?thesis by simp
  qed
qed

lemma prefix_hd:
  assumes "prefix p (m @ r)" and "p \<noteq> []" and "m \<noteq> []"
  shows "hd p = hd m"
proof -
  from assms(1) obtain zs where "m @ r = p @ zs" unfolding prefix_def by blast
  then have "hd (m @ r) = hd (p @ zs)" by simp
  with assms(2,3) show ?thesis by simp
qed

lemma prefix_insert_iff:
  assumes q: "q \<le> length d"
    and p: "p \<noteq> []" "hd p \<notin> set m" "m \<noteq> [] \<longrightarrow> hd m \<notin> set p"
    and un: "\<forall>j < q. prefix p (drop j d) \<longrightarrow> j + length p \<le> q"
  shows "prefix p (drop j (insertStr d q m)) \<longleftrightarrow>
         (j < q \<and> prefix p (drop j d)) \<or> (q + length m \<le> j \<and> prefix p (drop (j - length m) d))"
proof (cases "j < q")
  case before: True
  define a where "a = take (q - j) (drop j d)"
  have d': "drop j (insertStr d q m) = a @ m @ drop q d"
    unfolding a_def using q before by (rule drop_insertStr_before)
  have "drop (q - j) (drop j d) = drop q d"
    using before by simp
  then have dd: "drop j d = a @ drop q d"
    unfolding a_def by (metis append_take_drop_id)
  have la: "length a = q - j" unfolding a_def using q before by simp
  show ?thesis
  proof
    assume pre: "prefix p (drop j (insertStr d q m))"
    have "length p \<le> length a"
    proof (rule ccontr)
      assume "\<not> length p \<le> length a"
      then have long: "length a < length p" by (simp only: not_le)
      from pre d' have "prefix p (a @ m @ drop q d)" by simp
      from this long obtain p' where p': "p = a @ p'" "prefix p' (m @ drop q d)" "p' \<noteq> []"
        by (rule prefix_append_long)
      show False
      proof (cases "m = []")
        case True
        with pre have "prefix p (drop j d)" by (simp add: insertStr_def)
        with un before have "j + length p \<le> q" by blast
        with long la show False by simp
      next
        case False
        from p'(2,3) False have "hd p' = hd m" by (rule prefix_hd)
        with p'(1,3) have "hd m \<in> set p" by (metis Un_iff hd_in_set set_append)
        with False p(3) show False by blast
      qed
    qed
    from pre have "prefix p (a @ m @ drop q d)" unfolding d' .
    from this \<open>length p \<le> length a\<close> have "prefix p a" by (rule prefix_append_short)
    then have "prefix p (a @ drop q d)" by (rule prefix_prefix)
    then have "prefix p (drop j d)" unfolding dd .
    with before show "(j < q \<and> prefix p (drop j d)) \<or> (q + length m \<le> j \<and> prefix p (drop (j - length m) d))"
      by blast
  next
    assume "(j < q \<and> prefix p (drop j d)) \<or> (q + length m \<le> j \<and> prefix p (drop (j - length m) d))"
    with before have pre: "prefix p (drop j d)" by auto
    with un before have "j + length p \<le> q" by blast
    then have len: "length p \<le> length a" using la by simp
    from pre have "prefix p (a @ drop q d)" unfolding dd .
    from this len have "prefix p a" by (rule prefix_append_short)
    then show "prefix p (drop j (insertStr d q m))" unfolding d' by (rule prefix_prefix)
  qed
next
  case notbefore: False
  show ?thesis
  proof (cases "j < q + length m")
    case True
    with notbefore q have d': "drop j (insertStr d q m) = drop (j - q) m @ drop q d"
      by (simp add: drop_insertStr_inside)
    from True notbefore have ne: "drop (j - q) m \<noteq> []" by simp
    have "\<not> prefix p (drop (j - q) m @ drop q d)"
    proof
      assume "prefix p (drop (j - q) m @ drop q d)"
      from this p(1) ne have "hd p = hd (drop (j - q) m)"
        by (rule prefix_hd)
      moreover have "hd (drop (j - q) m) \<in> set m"
        using ne by (meson hd_in_set in_set_dropD)
      ultimately show False using p(2) by simp
    qed
    with d' True notbefore show ?thesis by simp
  next
    case False
    with q have "drop j (insertStr d q m) = drop (j - length m) d"
      by (simp add: drop_insertStr_after)
    with False notbefore show ?thesis by simp
  qed
qed

lemma matches_insert_iff:
  assumes "q \<le> length d" and "inert pats m" and "unbroken pats d q"
  shows "matches_at pats (insertStr d q m) j \<longleftrightarrow>
         (j < q \<and> matches_at pats d j) \<or> (q + length m \<le> j \<and> matches_at pats d (j - length m))"
proof -
  have "prefix p (drop j (insertStr d q m)) \<longleftrightarrow>
         (j < q \<and> prefix p (drop j d)) \<or> (q + length m \<le> j \<and> prefix p (drop (j - length m) d))"
    if "p \<in> set pats" for p
    using assms that by (intro prefix_insert_iff) (auto simp: inert_def unbroken_def)
  then show ?thesis unfolding matches_at_def by blast
qed

lemma search_no_match: "(\<forall>j. \<not> matches_at pats s j) \<Longrightarrow> search pats s = None"
  using search_Some by (cases "search pats s") blast+

lemma search_insertStr:
  assumes q: "q \<le> length d" and "inert pats m" and "unbroken pats d q"
  shows "search pats (insertStr d q m) = map_option (shift q (length m)) (search pats d)"
proof (cases "search pats d")
  case None
  then have "\<not> matches_at pats d j" for j by (rule search_None)
  then have "\<forall>j. \<not> matches_at pats (insertStr d q m) j"
    using matches_insert_iff[OF assms] by simp
  then show ?thesis using None by (simp add: search_no_match)
next
  case (Some i)
  from search_Some[OF Some] have i: "i \<le> length d" "matches_at pats d i"
    and first: "\<forall>j < i. \<not> matches_at pats d j" by auto
  let ?i' = "shift q (length m) i"
  have 1: "matches_at pats (insertStr d q m) ?i'"
    using i(2) by (simp add: matches_insert_iff[OF assms] shift_def)
  have 2: "?i' \<le> length (insertStr d q m)"
    using i(1) q by (simp add: shift_def insertStr_def)
  have 3: "\<forall>j < ?i'. \<not> matches_at pats (insertStr d q m) j"
  proof (intro allI impI notI)
    fix j assume j: "j < ?i'" and "matches_at pats (insertStr d q m) j"
    then consider "j < q" "matches_at pats d j"
      | "q + length m \<le> j" "matches_at pats d (j - length m)"
      using matches_insert_iff[OF assms] by blast
    then show False
    proof cases
      case 1
      with j have "j < i" by (simp add: shift_def split: if_splits)
      with first 1 show False by blast
    next
      case 2
      with j have "j - length m < i" by (simp add: shift_def split: if_splits)
      with first 2 show False by blast
    qed
  qed
  from search_first_match[OF 1 2 3] Some show ?thesis by simp
qed

text \<open>
  Two reasons why no match reaches across an insertion: the insertion is in front of a
  match of a pattern that overlaps no proper suffix of the later patterns, or it is
  behind a character that the later patterns do not contain.
\<close>

lemma overlap_drop:
  "\<not> overlap u x \<Longrightarrow> k < length u \<Longrightarrow> \<not> prefix (drop k u) x \<and> \<not> prefix x (drop k u)"
proof (induction u arbitrary: k)
  case Nil
  then show ?case by simp
next
  case (Cons c cs)
  then show ?case by (cases k) auto
qed

lemma unbroken_at_match:
  assumes x: "prefix x (drop q d)"
    and free: "\<forall>p \<in> set pats. \<not> overlap (tl p) x"
  shows "unbroken pats d q"
  unfolding unbroken_def
proof (intro ballI allI impI)
  fix p j assume p: "p \<in> set pats" and j: "j < q" and pre: "prefix p (drop j d)"
  show "j + length p \<le> q"
  proof (rule ccontr)
    assume "\<not> j + length p \<le> q"
    with j have long: "q - j < length p" by arith
    from pre obtain r where r: "drop j d = p @ r" unfolding prefix_def by blast
    have "drop q d = drop (q - j) (drop j d)" using j by simp
    also have "\<dots> = drop (q - j) p @ r" using long r by simp
    finally have dq: "drop q d = drop (q - j) p @ r" .
    from j have "drop (q - j) p = drop (q - j - 1) (tl p)"
      by (cases p) (simp_all add: drop_Cons')
    moreover from long j have "q - j - 1 < length (tl p)" by simp
    moreover from free p have "\<not> overlap (tl p) x" by blast
    ultimately have no: "\<not> prefix (drop (q - j) p) x" "\<not> prefix x (drop (q - j) p)"
      using overlap_drop[of "tl p" x "q - j - 1"] by simp_all
    from x dq have "prefix x (drop (q - j) p @ r)" by simp
    then have "prefix x (drop (q - j) p) \<or> prefix (drop (q - j) p) x"
      unfolding prefix_append by (auto simp: prefix_def)
    with no show False by blast
  qed
qed

lemma unbroken_after_char:
  assumes c: "j < length d" "d ! j = c"
    and free: "\<forall>p \<in> set pats. c \<notin> set p"
  shows "unbroken pats d (Suc j)"
  unfolding unbroken_def
proof (intro ballI allI impI)
  fix p j0 assume p: "p \<in> set pats" and j0: "j0 < Suc j" and pre: "prefix p (drop j0 d)"
  show "j0 + length p \<le> Suc j"
  proof (rule ccontr)
    assume "\<not> j0 + length p \<le> Suc j"
    with j0 have long: "j - j0 < length p" by arith
    from pre obtain r where r: "drop j0 d = p @ r" unfolding prefix_def by blast
    have "d ! j = drop j0 d ! (j - j0)" using j0 c(1) by simp
    also have "\<dots> = p ! (j - j0)" using long r by (simp add: nth_append)
    finally have "c \<in> set p" using long c(2) by (metis nth_mem)
    with free p show False by blast
  qed
qed

subsection \<open>Weaving marks into a chunk\<close>

text \<open>
  Adding one mark to a list of marks is one insertion into the woven string, at the
  position of the mark moved by the lengths of the marks in front of it.
\<close>

lemma marks_at_append: "marks_at (xs @ ys) i = marks_at xs i @ marks_at ys i"
  by (simp add: marks_at_def)

lemma marks_at_Cons: "marks_at ((q, m) # ms) i = (if q = i then m else []) @ marks_at ms i"
  by (simp add: marks_at_def)

lemma marks_at_Nil: "marks_at [] i = []"
  by (simp add: marks_at_def)

lemma weave_Nil: "weave [] i s = s"
  by (induction s arbitrary: i) (simp_all add: marks_at_Nil)

lemma weave_skip:
  "q < i0 \<Longrightarrow> weave (ms1 @ (q, m) # ms2) i0 s = weave (ms1 @ ms2) i0 s"
  by (induction s arbitrary: i0) (simp_all add: marks_at_append marks_at_Cons)

lemma width_same: "width ms lo lo = 0"
  by (induction ms) (auto simp: width_def)

lemma width_step: "lo < hi \<Longrightarrow> width ms lo hi = length (marks_at ms lo) + width ms (Suc lo) hi"
  by (induction ms) (auto simp: width_def marks_at_def)

lemma width_Suc: "lo \<le> hi \<Longrightarrow> width ms lo (Suc hi) = width ms lo hi + length (marks_at ms hi)"
  by (induction ms) (auto simp: width_def marks_at_def)

lemma width_append: "width (xs @ ys) lo hi = width xs lo hi + width ys lo hi"
  by (simp add: width_def)

lemma width_single: "width [(q, m)] lo hi = (if lo \<le> q \<and> q < hi then length m else 0)"
  by (simp add: width_def)

lemma width_mono: "hi \<le> hi' \<Longrightarrow> width ms lo hi \<le> width ms lo hi'"
  by (induction ms) (auto simp: width_def)

lemma insertStr_append: "insertStr (a @ b) (length a + k) m = a @ insertStr b k m"
  by (simp add: insertStr_def)

lemma weave_insert:
  assumes "i0 \<le> q" and "q \<le> i0 + length s"
  shows "weave (ms1 @ (q, m) # ms2) i0 s =
         insertStr (weave (ms1 @ ms2) i0 s)
           (q - i0 + width (ms1 @ ms2) i0 q + length (marks_at ms1 q)) m"
  using assms
proof (induction s arbitrary: i0)
  case Nil
  then have "q = i0" by simp
  then show ?case
    by (simp add: marks_at_append marks_at_Cons width_same insertStr_def)
next
  case (Cons c cs)
  show ?case
  proof (cases "q = i0")
    case True
    then have "weave (ms1 @ (q, m) # ms2) (Suc i0) cs = weave (ms1 @ ms2) (Suc i0) cs"
      by (simp add: weave_skip)
    with True show ?thesis
      by (simp add: marks_at_append marks_at_Cons width_same insertStr_def)
  next
    case False
    with Cons.prems have lt: "i0 < q" and le: "Suc i0 \<le> q" "q \<le> Suc i0 + length cs" by simp_all
    let ?M = "marks_at (ms1 @ ms2) i0"
    let ?k = "q - Suc i0 + width (ms1 @ ms2) (Suc i0) q + length (marks_at ms1 q)"
    have "weave (ms1 @ (q, m) # ms2) i0 (c # cs) = ?M @ c # weave (ms1 @ (q, m) # ms2) (Suc i0) cs"
      using False by (simp add: marks_at_append marks_at_Cons)
    also have "\<dots> = (?M @ [c]) @ insertStr (weave (ms1 @ ms2) (Suc i0) cs) ?k m"
      using Cons.IH[OF le] by simp
    also have "\<dots> = insertStr ((?M @ [c]) @ weave (ms1 @ ms2) (Suc i0) cs) (length (?M @ [c]) + ?k) m"
      by (rule insertStr_append[symmetric])
    also have "length (?M @ [c]) + ?k = q - i0 + width (ms1 @ ms2) i0 q + length (marks_at ms1 q)"
      using lt by (simp add: width_step[OF lt])
    finally show ?thesis by simp
  qed
qed

lemma pos_Nil: "pos [] i = i"
  by (simp add: pos_def width_def)

lemma pos_less_iff: "pos ms i < pos ms i' \<longleftrightarrow> i < i'"
proof
  assume "i < i'"
  then have "width ms 0 (Suc i) \<le> width ms 0 (Suc i')" by (simp add: width_mono)
  with \<open>i < i'\<close> show "pos ms i < pos ms i'" by (simp add: pos_def)
next
  assume l: "pos ms i < pos ms i'"
  show "i < i'"
  proof (rule ccontr)
    assume "\<not> i < i'"
    then have "i' \<le> i" by simp
    then have "width ms 0 (Suc i') \<le> width ms 0 (Suc i)" by (simp add: width_mono)
    with \<open>i' \<le> i\<close> l show False by (simp add: pos_def)
  qed
qed

lemma shift_pos_back: "shift (pos ms i) (length m) (pos ms i') = pos (ms @ [(i, m)]) i'"
proof -
  have "pos (ms @ [(i, m)]) i' = pos ms i' + (if i \<le> i' then length m else 0)"
    by (simp add: pos_def width_append width_single)
  moreover have "pos ms i' < pos ms i \<longleftrightarrow> \<not> i \<le> i'"
    by (simp add: pos_less_iff not_le)
  ultimately show ?thesis by (simp add: shift_def)
qed

lemma shift_pos_front: "shift (Suc (pos ms i)) (length m) (pos ms i') = pos ((Suc i, m) # ms) i'"
proof -
  have "pos ((Suc i, m) # ms) i' = pos ms i' + (if i < i' then length m else 0)"
    using width_append[of "[(Suc i, m)]" ms 0 "Suc i'"]
    by (simp add: pos_def width_single)
  moreover have "pos ms i' < Suc (pos ms i) \<longleftrightarrow> \<not> i < i'"
    using pos_less_iff[of ms i i'] by auto
  ultimately show ?thesis by (simp add: shift_def)
qed

subsection \<open>One statement of the handler\<close>

text \<open>
  If the data is the chunk with some marks woven in, and the search of the statement
  finds in the data what it would find in the chunk, then the statement weaves one more
  mark in, and later searches still find in the data what they would find in the chunk.
\<close>

lemma mark_weave_back:
  assumes d: "d = weave ms 0 buf"
    and s: "search pats d = map_option (pos ms) (search pats buf)"
  shows "mark pats 0 m d = weave (ms @ mark_of (search pats buf) 0 m) 0 buf"
proof (cases "search pats buf")
  case None
  with s d show ?thesis by (simp add: mark_def)
next
  case (Some i)
  from search_Some[OF Some] have i: "i \<le> length buf" by simp
  have "weave (ms @ (i, m) # []) 0 buf =
        insertStr (weave (ms @ []) 0 buf) (i - 0 + width (ms @ []) 0 i + length (marks_at ms i)) m"
    using i by (intro weave_insert) simp_all
  then have "weave (ms @ [(i, m)]) 0 buf = insertStr d (pos ms i) m"
    using d by (simp add: pos_def width_Suc add.assoc)
  with Some s show ?thesis by (simp add: mark_def)
qed

lemma match_in_range:
  assumes "matches_at pats s i" and "\<forall>p \<in> set pats. p \<noteq> []"
  shows "i < length s"
proof (rule ccontr)
  assume "\<not> i < length s"
  then have "drop i s = []" by simp
  with assms show False by (auto simp: matches_at_def)
qed

lemma mark_weave_front:
  assumes d: "d = weave ms 0 buf"
    and s: "search pats d = map_option (pos ms) (search pats buf)"
    and ne: "\<forall>p \<in> set pats. p \<noteq> []"
  shows "mark pats 1 m d = weave (mark_of (search pats buf) 1 m @ ms) 0 buf"
proof (cases "search pats buf")
  case None
  with s d show ?thesis by (simp add: mark_def)
next
  case (Some i)
  from search_Some[OF Some] have "matches_at pats buf i" by simp
  from this ne have i: "i < length buf" by (rule match_in_range)
  have "weave ([] @ (Suc i, m) # ms) 0 buf =
        insertStr (weave ([] @ ms) 0 buf) (Suc i - 0 + width ([] @ ms) 0 (Suc i) + length (marks_at [] (Suc i))) m"
    using i by (intro weave_insert) simp_all
  then have "weave ((Suc i, m) # ms) 0 buf = insertStr d (pos ms i + 1) m"
    using d by (simp add: pos_def marks_at_Nil)
  with Some s show ?thesis by (simp add: mark_def)
qed

lemma search_mark_back:
  assumes d: "d = weave ms 0 buf"
    and s: "search pats d = map_option (pos ms) (search pats buf)"
    and later: "search pats' d = map_option (pos ms) (search pats' buf)"
    and inert: "inert pats' m"
    and free: "\<forall>x \<in> set pats. \<forall>p \<in> set pats'. \<not> overlap (tl p) x"
  shows "search pats' (mark pats 0 m d) =
         map_option (pos (ms @ mark_of (search pats buf) 0 m)) (search pats' buf)"
proof (cases "search pats buf")
  case None
  with s later show ?thesis by (simp add: mark_def)
next
  case (Some i)
  with s have sd: "search pats d = Some (pos ms i)" by simp
  from search_Some[OF sd] have q: "pos ms i \<le> length d" and "matches_at pats d (pos ms i)"
    by simp_all
  then obtain x where x: "x \<in> set pats" "prefix x (drop (pos ms i) d)"
    unfolding matches_at_def by blast
  with free have "unbroken pats' d (pos ms i)"
    by (intro unbroken_at_match[of x]) auto
  from search_insertStr[OF q inert this]
  have "search pats' (insertStr d (pos ms i) m) =
        map_option (shift (pos ms i) (length m)) (map_option (pos ms) (search pats' buf))"
    using later by simp
  also have "\<dots> = map_option (pos (ms @ [(i, m)])) (search pats' buf)"
    by (simp add: option.map_comp comp_def shift_pos_back)
  finally show ?thesis using Some sd by (simp add: mark_def)
qed

lemma search_mark_front:
  assumes d: "d = weave ms 0 buf"
    and s: "search [[c]] d = map_option (pos ms) (search [[c]] buf)"
    and later: "search pats' d = map_option (pos ms) (search pats' buf)"
    and inert: "inert pats' m"
    and free: "\<forall>p \<in> set pats'. c \<notin> set p"
  shows "search pats' (mark [[c]] 1 m d) =
         map_option (pos (mark_of (search [[c]] buf) 1 m @ ms)) (search pats' buf)"
proof (cases "search [[c]] buf")
  case None
  with s later show ?thesis by (simp add: mark_def)
next
  case (Some i)
  with s have sd: "search [[c]] d = Some (pos ms i)" by simp
  from search_Some[OF sd] have m: "matches_at [[c]] d (pos ms i)" by simp
  then have lt: "pos ms i < length d" by (rule match_in_range) simp
  from m have "prefix [c] (drop (pos ms i) d)" by (simp add: matches_at_def)
  then obtain zs where "drop (pos ms i) d = c # zs" by (auto simp: prefix_def)
  then have "hd (drop (pos ms i) d) = c" by simp
  with lt have c: "d ! pos ms i = c" by (simp add: hd_drop_conv_nth)
  from lt c free have un: "unbroken pats' d (Suc (pos ms i))" by (rule unbroken_after_char)
  from lt have q: "Suc (pos ms i) \<le> length d" by simp
  from search_insertStr[OF q inert un]
  have "search pats' (insertStr d (Suc (pos ms i)) m) =
        map_option (shift (Suc (pos ms i)) (length m)) (map_option (pos ms) (search pats' buf))"
    using later by simp
  also have "\<dots> = map_option (pos ((Suc i, m) # ms)) (search pats' buf)"
    by (simp add: option.map_comp comp_def shift_pos_front)
  finally show ?thesis using Some sd by (simp add: mark_def)
qed

subsection \<open>The handler\<close>

text \<open>
  For any colour strings, each statement inserts its marker at the first match in the
  data it works on, and the chunk is a subsequence of what the handler sends.
\<close>

lemma subseq_weave: "subseq s (weave ms i s)"
proof (induction s arbitrary: i)
  case Nil
  then show ?case by simp
next
  case (Cons c cs)
  have "subseq (c # cs) (c # weave ms (Suc i) cs)" using Cons.IH by simp
  then have "subseq (c # cs) (marks_at ms i @ c # weave ms (Suc i) cs)"
    by (rule list_emb_append2)
  then show ?case by simp
qed
lemma subseq_insertStr: "subseq s (insertStr s q m)"
proof -
  have "subseq (take q s @ drop q s) (take q s @ m @ drop q s)"
    by (intro list_emb_append_mono subseq_order.order_refl list_emb_append2)
  then show ?thesis by (simp add: insertStr_def)
qed

lemma subseq_mark: "subseq s (mark pats offset m s)"
  by (simp add: mark_def subseq_insertStr split: option.split)

lemma classify_keeps_chunk: "subseq buf (classify pf buf)"
proof -
  have "subseq s (mark p1 o1 m1 (mark p2 o2 m2 (mark p3 o3 m3 (mark p4 o4 m4 s))))"
    for s p1 p2 p3 p4 o1 o2 o3 o4 m1 m2 m3 m4
    using subseq_mark subseq_order.order_trans by meson
  then show ?thesis by (simp add: classify_def Let_def)
qed

lemma mark_position:
  assumes "search pats d = Some i"
  shows "mark pats offset m d = take (i + offset) d @ m @ drop (i + offset) d"
    and "matches_at pats d i" and "\<forall>j < i. \<not> matches_at pats d j"
  using assms search_Some[OF assms] by (simp_all add: mark_def insertStr_def)

text \<open>The patterns of the handler: which of them can overlap.\<close>

lemma inert_append: "inert (xs @ ys) m \<longleftrightarrow> inert xs m \<and> inert ys m"
  by (auto simp: inert_def)

lemma green_start_free:
  "\<forall>x \<in> set AVRDUDE_STDOUT_GREEN_START. \<forall>p \<in> set AVRDUDE_STDOUT_GREEN_END. \<not> overlap (tl p) x"
  "\<forall>x \<in> set AVRDUDE_STDOUT_GREEN_START. \<forall>p \<in> set AVRDUDE_STDOUT_WHITE. \<not> overlap (tl p) x"
  "\<forall>x \<in> set AVRDUDE_STDOUT_GREEN_START. \<forall>p \<in> set AVRDUDE_STDOUT_RED_START. \<not> overlap (tl p) x"
  by (simp_all add: AVRDUDE_STDOUT_GREEN_START_def AVRDUDE_STDOUT_GREEN_END_def
      AVRDUDE_STDOUT_WHITE_def AVRDUDE_STDOUT_RED_START_def)

lemma white_free:
  "\<forall>x \<in> set AVRDUDE_STDOUT_WHITE. \<forall>p \<in> set AVRDUDE_STDOUT_RED_START. \<not> overlap (tl p) x"
  by (simp add: AVRDUDE_STDOUT_WHITE_def AVRDUDE_STDOUT_RED_START_def)

lemma percent_free:
  "\<forall>p \<in> set AVRDUDE_STDOUT_WHITE. CHR ''%'' \<notin> set p"
  "\<forall>p \<in> set AVRDUDE_STDOUT_RED_START. CHR ''%'' \<notin> set p"
  by (simp_all add: AVRDUDE_STDOUT_WHITE_def AVRDUDE_STDOUT_RED_START_def)

text \<open>
  Claim C9, amended: for every chunk on the programmer's error stream, with colour
  strings that are inert for the patterns, the classification inserts at most one
  marker per pattern, at the first match of that pattern inside the chunk as received:
  the start marker in front of the first \<open>Reading |\<close> or \<open>Writing |\<close>, the end marker
  directly behind the first \<open>%\<close>, the end marker in front of the first \<open>avrdude done\<close>
  and the error marker in front of the first \<open>can't open device\<close> or
  \<open>programmer is not responding\<close>. A later match of the same pattern in the chunk gets
  no marker, and the markers are not paired: each is placed on its own, so the end
  marker may come before the start marker and nothing closes the error marker. Every
  character of the chunk appears verbatim and in order in the forwarded output: only
  markers are inserted, nothing is removed or reordered.
\<close>

theorem classify_marks_first_matches:
  assumes "inert_markers pf"
  shows "classify pf buf = weave (first_marks pf buf) 0 buf \<and> subseq buf (classify pf buf)"
proof -
  let ?G = AVRDUDE_STDOUT_GREEN_START and ?E = AVRDUDE_STDOUT_GREEN_END
  let ?W = AVRDUDE_STDOUT_WHITE and ?R = AVRDUDE_STDOUT_RED_START
  let ?green = "ansi_green_dark pf" and ?clear = "ansi_clear pf" and ?red = "ansi_red pf"
  from assms have green: "inert ?E ?green" "inert ?W ?green" "inert ?R ?green"
    and clear: "inert ?W ?clear" "inert ?R ?clear"
    by (simp_all add: inert_markers_def inert_def AVRDUDE_STDOUT_GREEN_END_def
        AVRDUDE_STDOUT_WHITE_def AVRDUDE_STDOUT_RED_START_def)
  have E: "?E = [[CHR ''%'']]" by (simp add: AVRDUDE_STDOUT_GREEN_END_def)
  define ms1 where "ms1 = [] @ mark_of (search ?G buf) 0 ?green"
  define ms2 where "ms2 = mark_of (search ?E buf) 1 ?clear @ ms1"
  define ms3 where "ms3 = ms2 @ mark_of (search ?W buf) 0 ?clear"
  define ms4 where "ms4 = ms3 @ mark_of (search ?R buf) 0 ?red"
  define d1 where "d1 = mark ?G 0 ?green buf"
  define d2 where "d2 = mark ?E 1 ?clear d1"
  define d3 where "d3 = mark ?W 0 ?clear d2"
  define d4 where "d4 = mark ?R 0 ?red d3"
  have d0: "buf = weave [] 0 buf" by (simp add: weave_Nil)
  have s0: "search pats buf = map_option (pos []) (search pats buf)" for pats
    by (cases "search pats buf") (simp_all add: pos_Nil)
  have w1: "d1 = weave ms1 0 buf"
    unfolding d1_def ms1_def using d0 s0 by (rule mark_weave_back)
  have s1E: "search ?E d1 = map_option (pos ms1) (search ?E buf)"
    unfolding d1_def ms1_def using d0 s0 s0 green(1) green_start_free(1) by (rule search_mark_back)
  have s1W: "search ?W d1 = map_option (pos ms1) (search ?W buf)"
    unfolding d1_def ms1_def using d0 s0 s0 green(2) green_start_free(2) by (rule search_mark_back)
  have s1R: "search ?R d1 = map_option (pos ms1) (search ?R buf)"
    unfolding d1_def ms1_def using d0 s0 s0 green(3) green_start_free(3) by (rule search_mark_back)
  have w2: "d2 = weave ms2 0 buf"
    unfolding d2_def ms2_def using w1 s1E by (rule mark_weave_front) (simp add: E)
  have s2W: "search ?W d2 = map_option (pos ms2) (search ?W buf)"
    unfolding d2_def ms2_def E using w1 s1E[unfolded E] s1W clear(1) percent_free(1)
    by (rule search_mark_front)
  have s2R: "search ?R d2 = map_option (pos ms2) (search ?R buf)"
    unfolding d2_def ms2_def E using w1 s1E[unfolded E] s1R clear(2) percent_free(2)
    by (rule search_mark_front)
  have w3: "d3 = weave ms3 0 buf"
    unfolding d3_def ms3_def using w2 s2W by (rule mark_weave_back)
  have s3R: "search ?R d3 = map_option (pos ms3) (search ?R buf)"
    unfolding d3_def ms3_def using w2 s2W s2R clear(2) white_free by (rule search_mark_back)
  have w4: "d4 = weave ms4 0 buf"
    unfolding d4_def ms4_def using w3 s3R by (rule mark_weave_back)
  have "classify pf buf = d4"
    by (simp add: classify_def Let_def d4_def d3_def d2_def d1_def)
  moreover have "ms4 = first_marks pf buf"
    unfolding ms4_def ms3_def ms2_def ms1_def first_marks_def search_eq_first_match
      AVRDUDE_STDOUT_GREEN_START_def AVRDUDE_STDOUT_GREEN_END_def
      AVRDUDE_STDOUT_WHITE_def AVRDUDE_STDOUT_RED_START_def
    by simp
  ultimately have "classify pf buf = weave (first_marks pf buf) 0 buf"
    using w4 by simp
  then show ?thesis by (simp add: subseq_weave)
qed

theorem classify_marks_first_matches_witness:
  "inert_markers example_platform
   \<and> classify example_platform
       ''Writing | ## | 100% 0.1s avrdude done. programmer is not responding'' =
     CHR 0x1B # ''[32mWriting | ## | 100%'' @ CHR 0x1B # ''[0m 0.1s '' @
     CHR 0x1B # ''[0mavrdude done. '' @ CHR 0x1B # ''[91mprogrammer is not responding''"
proof -
  let ?chunk = "''Writing | ## | 100% 0.1s avrdude done. programmer is not responding''"
  have h: "inert_markers example_platform"
    by (simp add: inert_markers_def inert_def example_platform_def)
  have marks: "first_marks example_platform ?chunk =
        [(19, CHR 0x1B # ''[0m''), (0, CHR 0x1B # ''[32m''), (25, CHR 0x1B # ''[0m''),
         (39, CHR 0x1B # ''[91m'')]"
    by code_simp
  have woven: "weave [(19, CHR 0x1B # ''[0m''), (0, CHR 0x1B # ''[32m''),
                      (25, CHR 0x1B # ''[0m''), (39, CHR 0x1B # ''[91m'')] 0 ?chunk =
     CHR 0x1B # ''[32mWriting | ## | 100%'' @ CHR 0x1B # ''[0m 0.1s '' @
     CHR 0x1B # ''[0mavrdude done. '' @ CHR 0x1B # ''[91mprogrammer is not responding''"
    by code_simp
  from classify_marks_first_matches[OF h, of ?chunk]
  have "classify example_platform ?chunk = weave (first_marks example_platform ?chunk) 0 ?chunk"
    by (rule conjunct1)
  then have "classify example_platform ?chunk =
     CHR 0x1B # ''[32mWriting | ## | 100%'' @ CHR 0x1B # ''[0m 0.1s '' @
     CHR 0x1B # ''[0mavrdude done. '' @ CHR 0x1B # ''[91mprogrammer is not responding''"
    unfolding marks woven .
  with h show ?thesis by (rule conjI)
qed

text \<open>
  Claim C9 as stated has a marker at the located position of each pattern match of the
  chunk, bracketing the matched substring. Each of the four statements of the handler
  searches once and inserts once. In a chunk with two progress bars the second
  \<open>Writing |\<close>, which matches at position 24, and the second \<open>%\<close> get no marker. In a
  chunk whose first \<open>%\<close> comes before \<open>Reading |\<close> the end marker precedes the start
  marker. The error marker is inserted in front of the error pattern and nothing is
  inserted behind it.
\<close>

theorem later_matches_stay_unmarked:
  "matches_at [''Reading |'', ''Writing |'']
     ''Reading | # | 100% 0.0s Writing | # | 100% 0.1s'' 24
   \<and> classify example_platform ''Reading | # | 100% 0.0s Writing | # | 100% 0.1s'' =
     CHR 0x1B # ''[32mReading | # | 100%'' @ CHR 0x1B # ''[0m 0.0s Writing | # | 100% 0.1s''
   \<and> classify example_platform ''10% Reading | 20%'' =
     ''10%'' @ CHR 0x1B # ''[0m '' @ CHR 0x1B # ''[32mReading | 20%''
   \<and> classify example_platform ''x can't open device y'' =
     ''x '' @ CHR 0x1B # ''[91mcan't open device y''"
  by (simp add: matches_at_def classify_def mark_def insertStr_def example_platform_def
      AVRDUDE_STDOUT_GREEN_START_def AVRDUDE_STDOUT_GREEN_END_def
      AVRDUDE_STDOUT_WHITE_def AVRDUDE_STDOUT_RED_START_def Let_def)

end
